theory Spec2Isabelle
  imports Complex_Main "HOL-Library.AList"
begin

section \<open>Vectors, events and errors\<close>

text \<open>
  The program computes on numpy arrays of floating-point numbers. Here a batch holds a
  single sample and every number is a real: NaN and the validity masks are outside the
  model, and a Python exception is a value of \<open>py_error\<close>. The arithmetic is exact,
  except where the rounding of float64 decides a statement: the event operations are
  then modelled once more with every result rounded (\<open>subtract_from_event64\<close> and
  \<open>add_to_event64\<close> below).
\<close>

datatype py_error =
    KeyError | TypeError | AssertionError | IndexError | AttributeError
  | RuntimeError | NotImplementedError | ValueError

type_synonym vec3 = "real \<times> real \<times> real"

text \<open>
  Modelled from the spec: the Vector3 class (module oops.xarray, later polymath) is not
  part of the sources. The operators used by the path code are componentwise sum,
  difference and negation, the Euclidean \<open>norm\<close>, the dot product, and \<open>proj\<close>, the
  component of a vector along another one.
\<close>

definition ZERO :: vec3 where
  "ZERO = (0, 0, 0)"

fun vadd :: "vec3 \<Rightarrow> vec3 \<Rightarrow> vec3" where
  "vadd (a, b, c) (x, y, z) = (a + x, b + y, c + z)"

fun vsub :: "vec3 \<Rightarrow> vec3 \<Rightarrow> vec3" where
  "vsub (a, b, c) (x, y, z) = (a - x, b - y, c - z)"

fun vneg :: "vec3 \<Rightarrow> vec3" where
  "vneg (a, b, c) = (- a, - b, - c)"

fun vscale :: "real \<Rightarrow> vec3 \<Rightarrow> vec3" where
  "vscale k (a, b, c) = (k * a, k * b, k * c)"

fun dot :: "vec3 \<Rightarrow> vec3 \<Rightarrow> real" where
  "dot (a, b, c) (x, y, z) = a * x + b * y + c * z"

definition norm3 :: "vec3 \<Rightarrow> real" where
  "norm3 v = sqrt (dot v v)"

definition proj :: "vec3 \<Rightarrow> vec3 \<Rightarrow> vec3" where
  "proj v w = vscale (dot v w / dot w w) w"

text \<open>
  Modelled from the spec: the Event class (module oops.event) is not part of the
  sources. An event is a time, a position and a velocity relative to an origin path and
  a frame, with optional photon directions \<open>arr\<close> and \<open>dep\<close> (\<open>None\<close> is the source's
  \<open>Empty()\<close>), the fields \<open>perp\<close> and \<open>vflat\<close> that the path code copies, and \<open>ssb\<close>,
  the same event relative to the solar system barycenter in J2000 once it has been
  worked out. The ids of an event are \<open>e_origin_id\<close> and \<open>e_frame_id\<close>; \<open>origin_id\<close> and
  \<open>frame_id\<close> are the attributes of a path.
\<close>

record ev0 =
  time :: real
  pos :: vec3
  vel :: vec3
  e_origin_id :: string
  e_frame_id :: string
  perp :: "vec3 option"
  arr :: "vec3 option"
  dep :: "vec3 option"
  vflat :: vec3

record event = ev0 +
  ssb :: "ev0 option"

definition Event ::
  "real \<Rightarrow> vec3 \<Rightarrow> vec3 \<Rightarrow> string \<Rightarrow> string \<Rightarrow> vec3 option \<Rightarrow> vec3 option \<Rightarrow> vec3 option
    \<Rightarrow> vec3 \<Rightarrow> event" where
  "Event t p v oid fid pe a d vf =
     \<lparr>time = t, pos = p, vel = v, e_origin_id = oid, e_frame_id = fid,
      perp = pe, arr = a, dep = d, vflat = vf, ssb = None\<rparr>"

definition null_event :: "real \<Rightarrow> string \<Rightarrow> string \<Rightarrow> event" where
  "null_event t oid fid = Event t ZERO ZERO oid fid None None None ZERO"

section \<open>Paths\<close>

text \<open>
  A frame object as returned by \<open>frame_registry.connect(frame, reference)\<close>. The frame
  classes are not part of the sources: what a frame does to a vector at a time is a
  parameter of the model, the record \<open>frames\<close>. \<open>rotate_vec\<close> takes a vector at a time
  from the reference into the frame and \<open>rotate_vel\<close> a velocity at a position,
  \<open>unrotate_vec\<close> and \<open>unrotate_vel\<close> go from the frame into the reference.
\<close>

datatype frame = Frame string string

fun frame_of :: "frame \<Rightarrow> string" where
  "frame_of (Frame frame_id reference_id) = frame_id"

fun reference_of :: "frame \<Rightarrow> string" where
  "reference_of (Frame frame_id reference_id) = reference_id"

record frames =
  rotate_vec :: "frame \<Rightarrow> real \<Rightarrow> vec3 \<Rightarrow> vec3"
  rotate_vel :: "frame \<Rightarrow> real \<Rightarrow> vec3 \<Rightarrow> vec3 \<Rightarrow> vec3"
  unrotate_vec :: "frame \<Rightarrow> real \<Rightarrow> vec3 \<Rightarrow> vec3"
  unrotate_vel :: "frame \<Rightarrow> real \<Rightarrow> vec3 \<Rightarrow> vec3 \<Rightarrow> vec3"

definition frame_connect :: "string \<Rightarrow> string \<Rightarrow> frame" where
  "frame_connect frame_id reference_id = Frame frame_id reference_id"

text \<open>
  Modelled from the spec: the methods \<open>rotate_by_frame\<close> and \<open>unrotate_by_frame\<close> of the
  Event class are not part of the sources. The event keeps its time and its origin,
  every vector of it is taken into the other frame, and an empty photon direction
  stays empty.
\<close>

definition rotate_by_frame :: "frames \<Rightarrow> frame \<Rightarrow> event \<Rightarrow> event" where
  "rotate_by_frame fr f ev =
     ev\<lparr>pos := rotate_vec fr f (time ev) (pos ev),
        vel := rotate_vel fr f (time ev) (pos ev) (vel ev),
        e_frame_id := frame_of f,
        perp := map_option (rotate_vec fr f (time ev)) (perp ev),
        arr := map_option (rotate_vec fr f (time ev)) (arr ev),
        dep := map_option (rotate_vec fr f (time ev)) (dep ev),
        vflat := rotate_vec fr f (time ev) (vflat ev)\<rparr>"

definition unrotate_by_frame :: "frames \<Rightarrow> frame \<Rightarrow> event \<Rightarrow> event" where
  "unrotate_by_frame fr f ev =
     ev\<lparr>pos := unrotate_vec fr f (time ev) (pos ev),
        vel := unrotate_vel fr f (time ev) (pos ev) (vel ev),
        e_frame_id := reference_of f,
        perp := map_option (unrotate_vec fr f (time ev)) (perp ev),
        arr := map_option (unrotate_vec fr f (time ev)) (arr ev),
        dep := map_option (unrotate_vec fr f (time ev)) (dep ev),
        vflat := unrotate_vec fr f (time ev) (vflat ev)\<rparr>"

text \<open>
  One value of the parameter, for running the model: every frame has the axes of J2000,
  so that rotating an event only renames its frame.
\<close>

definition aligned_frames :: frames where
  "aligned_frames =
     \<lparr>rotate_vec = (\<lambda>f t v. v), rotate_vel = (\<lambda>f t p v. v),
      unrotate_vec = (\<lambda>f t v. v), unrotate_vel = (\<lambda>f t p v. v)\<rparr>"

text \<open>
  A path object: the three required attributes, then what the subclass stores.
  \<open>FixedPath\<close> is oops/path\_/fixedpath.py, \<open>LinearPath\<close> is oops/path/linearpath.py
  (position, velocity, epoch), the other five are the subclasses of
  oops/path/baseclass.py.
\<close>

datatype path =
    FixedPath (path_id: string) (origin_id: string) (frame_id: string) vec3
  | LinearPath (path_id: string) (origin_id: string) (frame_id: string) vec3 vec3 real
  | Linked (path_id: string) (origin_id: string) (frame_id: string) "path list" "frame list"
  | Relative (path_id: string) (origin_id: string) (frame_id: string) path path frame
  | Reversed (path_id: string) (origin_id: string) (frame_id: string) path
  | Rotated (path_id: string) (origin_id: string) (frame_id: string) path frame
  | Waypoint (path_id: string) (origin_id: string) (frame_id: string)

text \<open>
  \<open>event_at_time\<close> of every subclass, with \<open>add_to_event\<close> and \<open>subtract_from_event\<close> of
  the base class, which the linked and the relative path call. \<open>Linked_loop\<close> is the
  \<open>for\<close> loop of \<open>Linked.event_at_time\<close>.
\<close>

fun event_at_time :: "frames \<Rightarrow> path \<Rightarrow> real \<Rightarrow> py_error + event"
  and add_to_event :: "frames \<Rightarrow> path \<Rightarrow> event \<Rightarrow> py_error + event"
  and subtract_from_event :: "frames \<Rightarrow> path \<Rightarrow> event \<Rightarrow> py_error + event"
  and Linked_loop :: "frames \<Rightarrow> path list \<Rightarrow> frame list \<Rightarrow> event \<Rightarrow> py_error + event"
where
  "event_at_time fr (FixedPath pid oid fid p) t =
     Inr (Event t p ZERO oid fid None None None ZERO)"
| "event_at_time fr (LinearPath pid oid fid p v epoch) t =
     Inr (Event t (vadd p (vscale (t - epoch) v)) v oid fid None None None ZERO)"
| "event_at_time fr (Waypoint pid oid fid) t = Inr (null_event t pid fid)"
| "event_at_time fr (Reversed pid oid fid p) t =
     (case event_at_time fr p t of
        Inl err \<Rightarrow> Inl err
      | Inr ev \<Rightarrow>
          Inr (ev\<lparr>pos := vneg (pos ev), vel := vneg (vel ev),
                   perp := None, arr := None, dep := None, vflat := ZERO\<rparr>))"
| "event_at_time fr (Rotated pid oid fid p f) t =
     (case event_at_time fr p t of
        Inl err \<Rightarrow> Inl err
      | Inr ev \<Rightarrow> Inr (rotate_by_frame fr f ev))"
| "event_at_time fr (Relative pid oid fid p orig f) t =
     (case event_at_time fr p t of
        Inl err \<Rightarrow> Inl err
      | Inr ev \<Rightarrow> subtract_from_event fr orig (unrotate_by_frame fr f ev))"
| "event_at_time fr (Linked pid oid fid ps fs) t =
     (case ps of
        [] \<Rightarrow> Inl IndexError
      | p # rest \<Rightarrow>
          (case event_at_time fr p t of
             Inl err \<Rightarrow> Inl err
           | Inr ev \<Rightarrow> Linked_loop fr rest fs ev))"
| "Linked_loop fr [] fs ev = Inr ev"
| "Linked_loop fr (p # ps) fs ev =
     (case fs of
        [] \<Rightarrow> Inl IndexError
      | f # fs' \<Rightarrow>
          (case add_to_event fr p (unrotate_by_frame fr f ev) of
             Inl err \<Rightarrow> Inl err
           | Inr ev' \<Rightarrow> Linked_loop fr ps fs' ev'))"
| "add_to_event fr p ev =
     (if path_id p \<noteq> e_origin_id ev then Inl AssertionError
      else if frame_id p \<noteq> e_frame_id ev then Inl AssertionError
      else case event_at_time fr p (time ev) of
          Inl err \<Rightarrow> Inl err
        | Inr offset \<Rightarrow>
            Inr (Event (time ev) (vadd (pos ev) (pos offset)) (vadd (vel ev) (vel offset))
                   (origin_id p) (e_frame_id ev) (perp ev) (arr ev) (dep ev) (vflat ev)))"
| "subtract_from_event fr p ev =
     (if origin_id p \<noteq> e_origin_id ev then Inl AssertionError
      else if frame_id p \<noteq> e_frame_id ev then Inl AssertionError
      else case event_at_time fr p (time ev) of
          Inl err \<Rightarrow> Inl err
        | Inr offset \<Rightarrow>
            Inr ((Event (time ev) (vsub (pos ev) (pos offset)) (vsub (vel ev) (vel offset))
                    (path_id p) (e_frame_id ev) (perp ev) (arr ev) (dep ev) (vflat ev))
                 \<lparr>ssb := ssb ev\<rparr>))"

section \<open>The constructor of a linear path\<close>

text \<open>
  A Vector3 argument: its values and, when it carries one, its time derivative \<open>d_dt\<close>.
  The constructor accepts one Vector3 or a pair (position, velocity) of them.
\<close>

record vector3 =
  vals :: vec3
  d_dt :: "vec3 option"

datatype pos_arg = PosVector vector3 | PosPair vector3 vector3

text \<open>
  The values that reach Python's \<open>hasattr(object, name)\<close> in the constructor. The
  built-in raises TypeError unless \<open>name\<close> is a string; of the attributes of an object
  only those that the constructor reads are listed.
\<close>

datatype py_value = PyStr string | PyVector3 vector3

fun has_attribute :: "py_value \<Rightarrow> string \<Rightarrow> bool" where
  "has_attribute (PyVector3 v) name =
     (name = ''vals'' \<or> name = ''wod'' \<or> (name = ''d_dt'' \<and> d_dt v \<noteq> None))"
| "has_attribute (PyStr s) name = False"

fun hasattr :: "py_value \<Rightarrow> py_value \<Rightarrow> py_error + bool" where
  "hasattr obj (PyStr name) = Inr (has_attribute obj name)"
| "hasattr obj (PyVector3 v) = Inl TypeError"

definition wod :: "vector3 \<Rightarrow> vec3" where
  "wod v = vals v"

text \<open>
  \<open>LinearPath.__init__\<close> up to the assignment of the attributes; the registration at its
  end belongs to a registry that is not part of the sources. The call in the source is
  \<open>hasattr('d_dt', pos)\<close>, the object first and the name second.
\<close>

definition LinearPath_init ::
  "pos_arg \<Rightarrow> real \<Rightarrow> string \<Rightarrow> string \<Rightarrow> string \<Rightarrow> py_error + path" where
  "LinearPath_init pos_in epoch origin frame pid =
     (case pos_in of
        PosPair p v \<Rightarrow> Inr (LinearPath pid origin frame (wod p) (wod v) epoch)
      | PosVector p \<Rightarrow>
          (case hasattr (PyStr ''d_dt'') (PyVector3 p) of
             Inl err \<Rightarrow> Inl err
           | Inr has \<Rightarrow>
               Inr (LinearPath pid origin frame (wod p)
                      (if has then the (d_dt p) else ZERO) epoch)))"

section \<open>The registry\<close>

text \<open>
  A key of the registry is a path id, a pair (path id, origin id) or a triple (path id,
  origin id, frame id). A registered object is a path with its \<open>ancestry\<close> attribute,
  which only a primary definition has. The dictionary is an association list without
  repeated keys: \<open>keys()\<close> is the list of its keys, in Python 2 a copy made when it is
  called.
\<close>

datatype key = K1 string | K2 string string | K3 string string string

datatype pobj = PObj (the_path: path) (ancestry: "path list option")

type_synonym registry = "(key \<times> pobj) list"

definition lookup :: "registry \<Rightarrow> key \<Rightarrow> py_error + pobj" where
  "lookup reg k = (case map_of reg k of None \<Rightarrow> Inl KeyError | Some obj \<Rightarrow> Inr obj)"

definition has_key :: "registry \<Rightarrow> key \<Rightarrow> bool" where
  "has_key reg k = (map_of reg k \<noteq> None)"

definition setitem :: "registry \<Rightarrow> key \<Rightarrow> pobj \<Rightarrow> registry" where
  "setitem reg k obj = AList.update k obj reg"

definition delitem :: "registry \<Rightarrow> key \<Rightarrow> py_error + registry" where
  "delitem reg k = (if has_key reg k then Inr (AList.delete k reg) else Inl KeyError)"

definition keys :: "registry \<Rightarrow> key list" where
  "keys reg = map fst reg"

definition Waypoint_init :: "string \<Rightarrow> string \<Rightarrow> path" where
  "Waypoint_init pid fid = Waypoint pid pid fid"

definition SSB :: pobj where
  "SSB = PObj (Waypoint_init ''SSB'' ''J2000'') (Some [Waypoint_init ''SSB'' ''J2000''])"

definition initialize_registry :: registry where
  "initialize_registry =
     [(K1 ''SSB'', SSB), (K2 ''SSB'' ''SSB'', SSB), (K3 ''SSB'' ''SSB'' ''J2000'', SSB)]"

text \<open>
  \<open>Path.unregister\<close>: the body of the loop for one key, then the loop over the copied
  key list. The result is the exception raised, if any, and the registry as the call
  leaves it.
\<close>

definition unregister_tuple ::
  "string \<Rightarrow> string \<Rightarrow> string \<Rightarrow> key \<Rightarrow> registry \<Rightarrow> py_error option \<times> registry" where
  "unregister_tuple pid key0 key1 k reg =
     (case (if pid = key0 then delitem reg k else Inr reg) of
        Inl err \<Rightarrow> (Some err, reg)
      | Inr reg1 \<Rightarrow>
          (case (if pid = key1 then delitem reg1 k else Inr reg1) of
             Inl err \<Rightarrow> (Some err, reg1)
           | Inr reg2 \<Rightarrow> (None, reg2)))"

fun unregister_key :: "string \<Rightarrow> key \<Rightarrow> registry \<Rightarrow> py_error option \<times> registry" where
  "unregister_key pid (K1 s) reg =
     (if pid = s then
        (case delitem reg (K1 s) of Inl err \<Rightarrow> (Some err, reg) | Inr reg1 \<Rightarrow> (None, reg1))
      else (None, reg))"
| "unregister_key pid (K2 a b) reg = unregister_tuple pid a b (K2 a b) reg"
| "unregister_key pid (K3 a b c) reg = unregister_tuple pid a b (K3 a b c) reg"

fun unregister_loop :: "string \<Rightarrow> key list \<Rightarrow> registry \<Rightarrow> py_error option \<times> registry" where
  "unregister_loop pid [] reg = (None, reg)"
| "unregister_loop pid (k # ks) reg =
     (case unregister_key pid k reg of
        (Some err, reg1) \<Rightarrow> (Some err, reg1)
      | (None, reg1) \<Rightarrow> unregister_loop pid ks reg1)"

definition unregister :: "path \<Rightarrow> registry \<Rightarrow> py_error option \<times> registry" where
  "unregister self reg = unregister_loop (path_id self) (keys reg) reg"

section \<open>Registration and the connection of paths\<close>

text \<open>The constructors of the subclasses of oops/path/baseclass.py.\<close>

fun link_frames :: "path list \<Rightarrow> frame list" where
  "link_frames (p # q # ps) = frame_connect (frame_id p) (frame_id q) # link_frames (q # ps)"
| "link_frames ps = []"

definition Linked_init :: "path list \<Rightarrow> py_error + path" where
  "Linked_init paths =
     (if paths = [] then Inl IndexError
      else Inr (Linked (path_id (hd paths)) (origin_id (last paths)) (frame_id (last paths))
                  paths (link_frames paths)))"

definition Relative_init :: "path \<Rightarrow> path \<Rightarrow> py_error + path" where
  "Relative_init p orig =
     (if origin_id p \<noteq> origin_id orig then Inl AssertionError
      else Inr (Relative (path_id p) (path_id orig) (frame_id orig) p orig
                  (frame_connect (frame_id p) (frame_id orig))))"

definition Reversed_init :: "path \<Rightarrow> path" where
  "Reversed_init p = Reversed (origin_id p) (path_id p) (frame_id p) p"

definition Rotated_init :: "path \<Rightarrow> string \<Rightarrow> path" where
  "Rotated_init p newframe_id =
     Rotated (path_id p) (origin_id p) newframe_id p (frame_connect newframe_id (frame_id p))"

text \<open>
  \<open>Path.common_ancestry\<close>: \<open>find_id\<close> is the inner loop, the first index of the second
  list whose path has the given id; \<open>common_from\<close> is the outer loop from index \<open>i\<close> on.
\<close>

fun find_id :: "string \<Rightarrow> path list \<Rightarrow> nat option" where
  "find_id id1 [] = None"
| "find_id id1 (p # ps) =
     (if id1 = path_id p then Some 0 else map_option Suc (find_id id1 ps))"

fun common_from :: "nat \<Rightarrow> path list \<Rightarrow> path list \<Rightarrow> path list \<Rightarrow> path list \<times> path list" where
  "common_from i [] anc1 anc2 = (anc1, anc2)"
| "common_from i (p # ps) anc1 anc2 =
     (case find_id (path_id p) anc2 of
        Some j \<Rightarrow> (take (i + 1) anc1, take (j + 1) anc2)
      | None \<Rightarrow> common_from (Suc i) ps anc1 anc2)"

definition common_ancestry :: "pobj \<Rightarrow> pobj \<Rightarrow> py_error + path list \<times> path list" where
  "common_ancestry path1 path2 =
     (case (ancestry path1, ancestry path2) of
        (Some anc1, Some anc2) \<Rightarrow> Inr (common_from 0 anc1 anc1 anc2)
      | _ \<Rightarrow> Inl AttributeError)"

text \<open>
  Modelled from the spec: the module oops.path.registry (\<open>as_id\<close>, \<open>as_path\<close>,
  \<open>as_primary\<close>) is not part of the sources. The primary definition of a path is the
  entry of the registry under its bare id.
\<close>

definition as_primary :: "registry \<Rightarrow> string \<Rightarrow> py_error + pobj" where
  "as_primary reg pid = lookup reg (K1 pid)"

text \<open>
  The parts of \<open>Path.register\<close> that only write to the dictionary: the entries of a
  primary definition (the path itself, then its two waypoint keys), the entries for the
  path relative to the barycenter, and the secondary and tertiary keys.
\<close>

definition primary_entries :: "path \<Rightarrow> path list \<Rightarrow> registry \<Rightarrow> registry" where
  "primary_entries p anc reg1 =
     (let waypoint = PObj (Waypoint_init (path_id p) (frame_id p)) None;
          reg2 = setitem reg1 (K1 (path_id p)) (PObj p (Some (p # anc)));
          reg3 = setitem reg2 (K2 (path_id p) (path_id p)) waypoint
      in setitem reg3 (K3 (path_id p) (path_id p) (frame_id p)) waypoint)"

definition wrt_ssb_entries :: "pobj \<Rightarrow> registry \<Rightarrow> registry" where
  "wrt_ssb_entries wrt_ssb reg5 =
     (let w = path_id (the_path wrt_ssb);
          reg6 = setitem reg5 (K3 w ''SSB'' ''J2000'') wrt_ssb
      in if has_key reg6 (K2 w ''SSB'') then reg6 else setitem reg6 (K2 w ''SSB'') wrt_ssb)"

definition secondary_entries :: "pobj \<Rightarrow> registry \<Rightarrow> registry" where
  "secondary_entries self reg7 =
     (let p = the_path self;
          key2 = K2 (path_id p) (origin_id p);
          key3 = K3 (path_id p) (origin_id p) (frame_id p);
          reg8 = (if has_key reg7 key2 then reg7 else setitem reg7 key2 self)
      in if has_key reg8 key3 then reg8 else setitem reg8 key3 self)"

definition shortcut_entries :: "pobj \<Rightarrow> string \<Rightarrow> registry \<Rightarrow> registry" where
  "shortcut_entries self name reg =
     (let p = the_path self
      in setitem (setitem reg (K1 name) self) (K3 (path_id p) (origin_id p) (frame_id p)) self)"

text \<open>
  The part of \<open>Path.connect_to\<close> that constructs the relative path, irrespective of
  frame, from the paths of the two ends.
\<close>

definition relative_result ::
  "pobj \<Rightarrow> string \<Rightarrow> pobj option \<Rightarrow> pobj option \<Rightarrow> py_error + pobj" where
  "relative_result self fid target_path origin_path =
     (case origin_path of
        None \<Rightarrow>
          (case target_path of
             None \<Rightarrow> Inr (PObj (Waypoint_init (path_id (the_path self)) fid) None)
           | Some tp \<Rightarrow> Inr tp)
      | Some op \<Rightarrow>
          (case target_path of
             None \<Rightarrow> Inr (PObj (Reversed_init (the_path op)) None)
           | Some tp \<Rightarrow>
               (case Relative_init (the_path tp) (the_path op) of
                  Inl err \<Rightarrow> Inl err
                | Inr rel \<Rightarrow> Inr (PObj rel None))))"

text \<open>
  \<open>Path.register\<close> and \<open>Path.connect_to\<close> call each other. Each body below takes the
  method that it calls as its first argument, and returns the object (with the ancestry
  that \<open>register\<close> has given it) or the exception, and the registry as the call leaves
  it. \<open>lookup_or_link\<close> is the block of \<open>connect_to\<close> that looks up or constructs the path
  of one end from the common ancestor; \<open>register_primary\<close> is the \<open>except KeyError\<close> block
  of \<open>register\<close>, entered when the id is unregistered.
\<close>

type_synonym 'a outcome = "(py_error + 'a) \<times> registry"

type_synonym register_method = "pobj \<Rightarrow> string option \<Rightarrow> registry \<Rightarrow> pobj outcome"

type_synonym connect_to_method = "pobj \<Rightarrow> string \<Rightarrow> string option \<Rightarrow> registry \<Rightarrow> pobj outcome"

definition lookup_or_link ::
  "register_method \<Rightarrow> pobj \<Rightarrow> path list \<Rightarrow> registry \<Rightarrow> (pobj option) outcome" where
  "lookup_or_link reg_m prim anc reg =
     (if anc = [] then (Inr None, reg)
      else if length anc = 1 then (Inr (Some prim), reg)
      else
        (case lookup reg (K2 (path_id (the_path prim)) (origin_id (last anc))) of
           Inr found \<Rightarrow> (Inr (Some found), reg)
         | Inl err \<Rightarrow>
             (case Linked_init anc of
                Inl err1 \<Rightarrow> (Inl err1, reg)
              | Inr linked \<Rightarrow>
                  (case reg_m (PObj linked None) None reg of
                     (Inl err2, reg1) \<Rightarrow> (Inl err2, reg1)
                   | (Inr linked1, reg1) \<Rightarrow> (Inr (Some linked1), reg1)))))"

definition register_rotated :: "register_method \<Rightarrow> string \<Rightarrow> pobj outcome \<Rightarrow> pobj outcome" where
  "register_rotated reg_m fid out =
     (case out of
        (Inl err, reg3) \<Rightarrow> (Inl err, reg3)
      | (Inr result, reg3) \<Rightarrow>
          (if frame_id (the_path result) \<noteq> fid then
             reg_m (PObj (Rotated_init (the_path result) fid) None) None reg3
           else (Inr result, reg3)))"

definition connect_to_body :: "register_method \<Rightarrow> connect_to_method" where
  "connect_to_body reg_m self origin frame reg =
     (case as_primary reg (path_id (the_path self)) of
        Inl err \<Rightarrow> (Inl err, reg)
      | Inr target \<Rightarrow>
     (case as_primary reg origin of
        Inl err \<Rightarrow> (Inl err, reg)
      | Inr origin_obj \<Rightarrow>
     (let fid = (case frame of None \<Rightarrow> frame_id (the_path origin_obj) | Some f \<Rightarrow> f)
      in case common_ancestry target origin_obj of
        Inl err \<Rightarrow> (Inl err, reg)
      | Inr (target_anc, origin_anc) \<Rightarrow>
     (case lookup_or_link reg_m target (butlast target_anc) reg of
        (Inl err, reg1) \<Rightarrow> (Inl err, reg1)
      | (Inr target_path, reg1) \<Rightarrow>
     (case lookup_or_link reg_m origin_obj (butlast origin_anc) reg1 of
        (Inl err, reg2) \<Rightarrow> (Inl err, reg2)
      | (Inr origin_path, reg2) \<Rightarrow>
     (case relative_result self fid target_path origin_path of
        Inl err \<Rightarrow> (Inl err, reg2)
      | Inr result \<Rightarrow> register_rotated reg_m fid (reg_m result None reg2)))))))"

definition register_primary :: "connect_to_method \<Rightarrow> pobj \<Rightarrow> pobj \<Rightarrow> registry \<Rightarrow> pobj outcome" where
  "register_primary conn_m self origin reg =
     (let p = the_path self
      in case ancestry origin of
           None \<Rightarrow> (Inl AttributeError, setitem reg (K1 (path_id p)) self)
         | Some anc \<Rightarrow>
             (let self1 = PObj p (Some (p # anc));
                  reg4 = primary_entries p anc (setitem reg (K1 (path_id p)) self)
              in if origin_id p \<noteq> ''SSB'' \<or> frame_id p \<noteq> ''J2000'' then
                   (case conn_m self1 ''SSB'' (Some ''J2000'') reg4 of
                      (Inl err, reg5) \<Rightarrow> (Inr self1, reg5)
                    | (Inr wrt_ssb, reg5) \<Rightarrow> (Inr self1, wrt_ssb_entries wrt_ssb reg5))
                 else (Inr self1, reg4)))"

definition register_body :: "connect_to_method \<Rightarrow> register_method" where
  "register_body conn_m self shortcut reg0 =
     (let reg = (if reg0 = [] then initialize_registry else reg0)
      in case shortcut of
           Some name \<Rightarrow> (Inr self, shortcut_entries self name reg)
         | None \<Rightarrow>
             (case lookup reg (K1 (origin_id (the_path self))) of
                Inl err \<Rightarrow> (Inl err, reg)
              | Inr origin \<Rightarrow>
                  (case (if has_key reg (K1 (path_id (the_path self))) then (Inr self, reg)
                         else register_primary conn_m self origin reg) of
                     (Inl err, reg7) \<Rightarrow> (Inl err, reg7)
                   | (Inr self2, reg7) \<Rightarrow> (Inr self2, secondary_entries self2 reg7))))"

text \<open>
  The two methods. The first argument bounds the depth of the nested calls of
  \<open>register\<close>, as Python's recursion limit does: at depth zero the call raises
  RuntimeError.
\<close>

primrec register :: "nat \<Rightarrow> register_method" where
  "register 0 = (\<lambda>self shortcut reg. (Inl RuntimeError, reg))"
| "register (Suc n) = register_body (connect_to_body (register n))"

definition connect_to :: "nat \<Rightarrow> connect_to_method" where
  "connect_to n = connect_to_body (register n)"

text \<open>
  The static method \<open>Path.connect\<close>, with ids for the target and the origin. Its second
  \<open>try\<close> block catches a KeyError of the lookup and of the registration alike.
\<close>

definition connect ::
  "nat \<Rightarrow> string \<Rightarrow> string \<Rightarrow> string option \<Rightarrow> registry \<Rightarrow> (py_error + pobj) \<times> registry" where
  "connect n target_id origin frame reg =
     (case (case frame of
              None \<Rightarrow> (case lookup reg (K1 origin) of
                          Inl err \<Rightarrow> Inl err
                        | Inr obj \<Rightarrow> Inr (frame_id (the_path obj)))
            | Some f \<Rightarrow> Inr f) of
        Inl err \<Rightarrow> (Inl err, reg)
      | Inr fid \<Rightarrow>
          (case lookup reg (K3 target_id origin fid) of
             Inr found \<Rightarrow> (Inr found, reg)
           | Inl err \<Rightarrow>
               (case
                  (case lookup reg (K2 target_id origin) of
                     Inl err1 \<Rightarrow> (Inl err1, reg)
                   | Inr newpath \<Rightarrow>
                       register n (PObj (Rotated_init (the_path newpath) fid) None) None reg)
                of
                  (Inr result, reg1) \<Rightarrow> (Inr result, reg1)
                | (Inl err2, reg1) \<Rightarrow>
                    (if err2 \<noteq> KeyError then (Inl err2, reg1)
                     else
                       (case lookup reg1 (K1 target_id) of
                          Inl err3 \<Rightarrow> (Inl err3, reg1)
                        | Inr target_path \<Rightarrow> connect_to n target_path origin (Some fid) reg1)))))"

definition reregister :: "nat \<Rightarrow> path \<Rightarrow> registry \<Rightarrow> (py_error + pobj) \<times> registry" where
  "reregister n self reg =
     (case unregister self reg of
        (Some err, reg1) \<Rightarrow> (Inl err, reg1)
      | (None, reg1) \<Rightarrow> register n (PObj self None) None reg1)"

section \<open>The photon solver\<close>

text \<open>
  Modelled from the spec: the module oops.constants is not part of the sources. The
  speed of light in km/s.
\<close>

definition C :: real where
  "C = 299792.458"

text \<open>
  Modelled from the spec: the methods of the Event class that \<open>_solve_photon\<close> calls
  are not part of the sources. \<open>wrt_frame\<close> gives the event in another frame, \<open>wrt_path\<close>
  relative to another origin (through \<open>Path.connect\<close>), \<open>wrt\<close> does both, \<open>wrt_event\<close>
  gives the separation from another event in the origin and the frame of that event
  (the spec's second event, "expressing the relative separation"), and \<open>wrt_ssb\<close> gives the event
  relative to the barycenter in J2000, the common inertial root, keeping it in the field
  \<open>ssb\<close> of the event. \<open>core\<close> and \<open>ssb_event\<close> pass between an event and the value of
  its field \<open>ssb\<close>, which is its own \<open>ssb\<close>.
\<close>

definition core :: "event \<Rightarrow> ev0" where
  "core e = \<lparr>time = time e, pos = pos e, vel = vel e, e_origin_id = e_origin_id e,
             e_frame_id = e_frame_id e, perp = perp e, arr = arr e, dep = dep e,
             vflat = vflat e\<rparr>"

definition ssb_event :: "ev0 \<Rightarrow> event" where
  "ssb_event s = \<lparr>time = time s, pos = pos s, vel = vel s, e_origin_id = e_origin_id s,
             e_frame_id = e_frame_id s, perp = perp s, arr = arr s, dep = dep s,
             vflat = vflat s, ssb = Some s\<rparr>"

definition wrt_frame :: "frames \<Rightarrow> event \<Rightarrow> string \<Rightarrow> event" where
  "wrt_frame fr ev fid =
     (if fid = e_frame_id ev then ev
      else rotate_by_frame fr (frame_connect fid (e_frame_id ev)) ev)"

definition wrt_path :: "frames \<Rightarrow> nat \<Rightarrow> event \<Rightarrow> string \<Rightarrow> registry \<Rightarrow> event outcome" where
  "wrt_path fr n ev pid reg =
     (if pid = e_origin_id ev then (Inr ev, reg)
      else
        (case connect n pid (e_origin_id ev) (Some (e_frame_id ev)) reg of
           (Inl err, reg1) \<Rightarrow> (Inl err, reg1)
         | (Inr p, reg1) \<Rightarrow> (subtract_from_event fr (the_path p) ev, reg1)))"

definition wrt :: "frames \<Rightarrow> nat \<Rightarrow> event \<Rightarrow> string \<Rightarrow> string \<Rightarrow> registry \<Rightarrow> event outcome" where
  "wrt fr n ev pid fid reg =
     (case wrt_path fr n ev pid reg of
        (Inl err, reg1) \<Rightarrow> (Inl err, reg1)
      | (Inr ev1, reg1) \<Rightarrow> (Inr (wrt_frame fr ev1 fid), reg1))"

definition wrt_event :: "frames \<Rightarrow> nat \<Rightarrow> event \<Rightarrow> event \<Rightarrow> registry \<Rightarrow> event outcome" where
  "wrt_event fr n ev other reg =
     (case wrt fr n ev (e_origin_id other) (e_frame_id other) reg of
        (Inl err, reg1) \<Rightarrow> (Inl err, reg1)
      | (Inr ev1, reg1) \<Rightarrow>
          (Inr (ev1\<lparr>pos := vsub (pos ev1) (pos other), vel := vsub (vel ev1) (vel other)\<rparr>),
           reg1))"

definition wrt_ssb :: "frames \<Rightarrow> nat \<Rightarrow> event \<Rightarrow> registry \<Rightarrow> (event \<times> event) outcome" where
  "wrt_ssb fr n ev reg =
     (case ssb ev of
        Some s \<Rightarrow> (Inr (ssb_event s, ev), reg)
      | None \<Rightarrow>
          (case wrt fr n ev ''SSB'' ''J2000'' reg of
             (Inl err, reg1) \<Rightarrow> (Inl err, reg1)
           | (Inr ev1, reg1) \<Rightarrow> (Inr (ssb_event (core ev1), ev\<lparr>ssb := Some (core ev1)\<rparr>), reg1)))"

text \<open>
  One pass of the loop of \<open>Path._solve_photon\<close>: the new light time from the event of
  the path at the current path time, the event relative to the barycenter and the
  signed speed of light.
\<close>

definition newton_step :: "real \<Rightarrow> event \<Rightarrow> event \<Rightarrow> real \<Rightarrow> real" where
  "newton_step signed_c path_event event_wrt_ssb lt =
     (let delta_pos = vsub (pos path_event) (pos event_wrt_ssb);
          delta_vel = vsub (vel path_event) (vel event_wrt_ssb)
      in lt - (norm3 delta_pos - lt * signed_c) /
              (norm3 (proj delta_vel delta_pos) - signed_c))"

fun newton_loop ::
  "frames \<Rightarrow> path \<Rightarrow> event \<Rightarrow> real \<Rightarrow> real \<Rightarrow> nat \<Rightarrow> real \<Rightarrow> py_error + real" where
  "newton_loop fr path_wrt_ssb event_wrt_ssb t signed_c 0 lt = Inr lt"
| "newton_loop fr path_wrt_ssb event_wrt_ssb t signed_c (Suc k) lt =
     (case event_at_time fr path_wrt_ssb (t + lt) of
        Inl err \<Rightarrow> Inl err
      | Inr path_event \<Rightarrow>
          newton_loop fr path_wrt_ssb event_wrt_ssb t signed_c k
            (newton_step signed_c path_event event_wrt_ssb lt))"

text \<open>
  The initial guess and the iteration: the light time that the loop leaves, for the
  path and the event relative to the barycenter.
\<close>

definition light_time ::
  "frames \<Rightarrow> path \<Rightarrow> event \<Rightarrow> real \<Rightarrow> real \<Rightarrow> nat \<Rightarrow> py_error + real" where
  "light_time fr path_wrt_ssb event_wrt_ssb t signed_c iters =
     (case event_at_time fr path_wrt_ssb t of
        Inl err \<Rightarrow> Inl err
      | Inr guess \<Rightarrow>
          newton_loop fr path_wrt_ssb event_wrt_ssb t signed_c iters
            (norm3 (vsub (pos guess) (pos event_wrt_ssb)) / signed_c))"

text \<open>
  Filling in the photon paths: the event of the path and the given event with its
  \<open>ssb\<close>, after the assignments of the branch that the sign selects.
\<close>

definition fill_photon :: "frames \<Rightarrow> int \<Rightarrow> event \<Rightarrow> event \<Rightarrow> event \<Rightarrow> event \<times> event" where
  "fill_photon fr sign path_event_ssb event_wrt_ssb ev =
     (if sign < 0 then
        (let d = vsub (pos event_wrt_ssb) (pos path_event_ssb);
             ew = event_wrt_ssb\<lparr>arr := Some d\<rparr>
         in (path_event_ssb\<lparr>dep := Some d\<rparr>,
             ev\<lparr>ssb := Some (core ew), arr := arr (wrt_frame fr ew (e_frame_id ev))\<rparr>))
      else
        (let a = vsub (pos path_event_ssb) (pos event_wrt_ssb);
             ew = event_wrt_ssb\<lparr>dep := Some a\<rparr>
         in (path_event_ssb\<lparr>arr := Some a\<rparr>,
             ev\<lparr>ssb := Some (core ew), dep := dep (wrt_frame fr ew (e_frame_id ev))\<rparr>)))"

text \<open>
  \<open>Path._solve_photon\<close> with \<open>quick_info=None\<close>. The result holds the absolute event, the
  relative event, whose time is the light time, and the given event as the call leaves
  it.
\<close>

definition solve_photon ::
  "frames \<Rightarrow> nat \<Rightarrow> path \<Rightarrow> event \<Rightarrow> int \<Rightarrow> nat \<Rightarrow> registry
    \<Rightarrow> (event \<times> event \<times> event) outcome" where
  "solve_photon fr n self ev sign iters reg =
     (let signed_c = of_int sign * C
      in case connect n (path_id self) ''SSB'' (Some ''J2000'') reg of
        (Inl err, reg1) \<Rightarrow> (Inl err, reg1)
      | (Inr path_wrt_ssb, reg1) \<Rightarrow>
     (case wrt_ssb fr n ev reg1 of
        (Inl err, reg2) \<Rightarrow> (Inl err, reg2)
      | (Inr (event_wrt_ssb, ev1), reg2) \<Rightarrow>
     (case light_time fr (the_path path_wrt_ssb) event_wrt_ssb (time ev) signed_c iters of
        Inl err \<Rightarrow> (Inl err, reg2)
      | Inr lt \<Rightarrow>
     (case event_at_time fr (the_path path_wrt_ssb) (time ev + lt) of
        Inl err \<Rightarrow> (Inl err, reg2)
      | Inr path_event \<Rightarrow>
     (let (path_event_ssb, ev2) = fill_photon fr sign path_event event_wrt_ssb ev1
      in case wrt fr n path_event_ssb (path_id self) (frame_id self) reg2 of
        (Inl err, reg3) \<Rightarrow> (Inl err, reg3)
      | (Inr absolute_event, reg3) \<Rightarrow>
     (case wrt_event fr n path_event_ssb ev2 reg3 of
        (Inl err, reg4) \<Rightarrow> (Inl err, reg4)
      | (Inr relative_event, reg4) \<Rightarrow>
          (Inr (absolute_event\<lparr>ssb := Some (core path_event_ssb)\<rparr>,
                (wrt_frame fr relative_event (e_frame_id ev2))
                  \<lparr>time := lt, ssb := Some (core path_event_ssb)\<rparr>,
                ev2), reg4)))))))"

definition photon_from_event ::
  "frames \<Rightarrow> nat \<Rightarrow> path \<Rightarrow> event \<Rightarrow> nat \<Rightarrow> registry \<Rightarrow> (event \<times> event \<times> event) outcome" where
  "photon_from_event fr n self ev iters reg = solve_photon fr n self ev 1 iters reg"

definition photon_to_event ::
  "frames \<Rightarrow> nat \<Rightarrow> path \<Rightarrow> event \<Rightarrow> nat \<Rightarrow> registry \<Rightarrow> (event \<times> event \<times> event) outcome" where
  "photon_to_event fr n self ev iters reg = solve_photon fr n self ev (- 1) iters reg"

section \<open>The scenario of two stationary paths\<close>

text \<open>
  Two fixed paths relative to the barycenter in J2000, \<open>A\<close> at the origin and \<open>B\<close> at
  300000 km on the first axis, registered in this order in the initial registry, as the
  constructor of a fixed path does with \<open>reregister\<close>.
\<close>

definition path_A :: path where
  "path_A = FixedPath ''A'' ''SSB'' ''J2000'' (0, 0, 0)"

definition path_B :: path where
  "path_B = FixedPath ''B'' ''SSB'' ''J2000'' (300000, 0, 0)"

definition registry_A :: registry where
  "registry_A = snd (reregister 3 path_A initialize_registry)"

definition registry_AB :: registry where
  "registry_AB = snd (reregister 3 path_B registry_A)"

text \<open>The event at time \<open>t\<close> on \<open>B\<close>, as \<open>event_at_time\<close> of \<open>B\<close> returns it.\<close>

definition event_on_B :: "real \<Rightarrow> event" where
  "event_on_B t = Event t (300000, 0, 0) ZERO ''SSB'' ''J2000'' None None None ZERO"

section \<open>The Newton step as the spec words it\<close>

text \<open>
  The update of the spec: the residual is the separation minus the signed speed of
  light times the light time, its derivative is the component of the relative velocity
  along the separation minus the signed speed of light.
\<close>

definition newton_step_spec :: "real \<Rightarrow> event \<Rightarrow> event \<Rightarrow> real \<Rightarrow> real" where
  "newton_step_spec signed_c path_event event_wrt_ssb lt =
     (let delta_pos = vsub (pos path_event) (pos event_wrt_ssb);
          delta_vel = vsub (vel path_event) (vel event_wrt_ssb);
          y = norm3 delta_pos - signed_c * lt;
          dy_dlt = dot delta_vel delta_pos / norm3 delta_pos - signed_c
      in lt - y / dy_dlt)"

text \<open>
  A target that approaches: a linear path that is \<open>C\<close> km from the barycenter at time
  zero and moves towards it at 1 km/s, built from a pair (position, velocity), and the
  event at the barycenter at time zero.
\<close>

definition path_T :: path where
  "path_T = LinearPath ''T'' ''SSB'' ''J2000'' (C, 0, 0) (- 1, 0, 0) 0"

definition event_at_SSB :: event where
  "event_at_SSB = null_event 0 ''SSB'' ''J2000''"


section \<open>The backplane\<close>

text \<open>
  The caches of oops\_/backplane.py. A dictionary is an association list; an event key
  is a string or a tuple of body names, and \<open>standardize_event_key\<close> turns a string into
  a tuple of one name and refuses every other type.
\<close>

type_synonym ('k, 'v) dict = "('k \<times> 'v) list"

definition getitem :: "('k, 'v) dict \<Rightarrow> 'k \<Rightarrow> py_error + 'v" where
  "getitem d k = (case map_of d k of None \<Rightarrow> Inl KeyError | Some v \<Rightarrow> Inr v)"

definition contains :: "('k, 'v) dict \<Rightarrow> 'k \<Rightarrow> bool" where
  "contains d k = (map_of d k \<noteq> None)"

definition store :: "('k, 'v) dict \<Rightarrow> 'k \<Rightarrow> 'v \<Rightarrow> ('k, 'v) dict" where
  "store d k v = AList.update k v d"

datatype event_key = KeyStr string | KeyTuple "string list" | KeyOther

definition standardize_event_key :: "event_key \<Rightarrow> py_error + string list" where
  "standardize_event_key event_key =
     (case event_key of
        KeyStr name \<Rightarrow> Inr [name]
      | KeyTuple names \<Rightarrow> Inr names
      | KeyOther \<Rightarrow> Inl ValueError)"

definition upper_char :: "char \<Rightarrow> char" where
  "upper_char c =
     (let n = (of_char c :: nat) in if 97 \<le> n \<and> n \<le> 122 then char_of (n - 32) else c)"

definition upper :: "string \<Rightarrow> string" where
  "upper name = map upper_char name"

text \<open>
  The surfaces, the paths and the events of this version of the library are not part
  of the sources. A surface is what \<open>Backplane.get_surface\<close> returns for a name, with its
  flag for intercept derivatives. Of an event the backplane reads whether the arrival
  direction is filled and the subfields with the light times; it adds the subfields
  with the event key and the surface, and \<open>plain\<close> is the event without derivatives.
\<close>

datatype surface = Surface (surface_name: string) (intercept_DERIVS_ARE_IMPLEMENTED: bool)

record bp_event =
  arr_filled :: bool
  subfields :: "(string, real) dict"
  event_key_of :: "string list option"
  surface_of :: "surface option"
  with_derivs :: bool

definition plain :: "bp_event \<Rightarrow> bp_event" where
  "plain ev = ev\<lparr>with_derivs := False\<rparr>"

text \<open>
  The collaborators of a backplane, parameters of the model: the lookup of a surface
  and of a path by name (through the registry of bodies), the photon solver of a
  surface (with the flag \<open>derivs\<close>) and of a path, which also gives the destination event
  as it leaves it, the arrival filled in place, and the formula of the resolution.
\<close>

record collaborators =
  get_surface :: "string \<Rightarrow> py_error + surface"
  get_path :: "string \<Rightarrow> py_error + string"
  surface_photon_to_event :: "surface \<Rightarrow> bp_event \<Rightarrow> bool \<Rightarrow> py_error + bp_event"
  path_photon_to_event :: "string \<Rightarrow> bp_event \<Rightarrow> py_error + bp_event \<times> bp_event"
  resolution :: "bp_event \<Rightarrow> real \<times> real"

text \<open>
  A call of a photon solver: of the surface for a chain, with its flag \<open>derivs\<close>, or of
  the path for a chain. The backplane of the model keeps the list of the calls made,
  besides the dictionaries of the source.
\<close>

datatype solver_call = SurfaceSolve "string list" bool | PathSolve "string list"

datatype backplane_key = BKey string "string list" "string list"

record backplane =
  surface_events_w_derivs :: "(event_key, bp_event) dict"
  surface_events :: "(event_key, bp_event) dict"
  path_events :: "(event_key, bp_event) dict"
  gridless_events :: "(event_key, bp_event) dict"
  backplanes :: "(backplane_key, real) dict"
  solver_calls :: "solver_call list"

type_synonym 'a result = "(py_error + 'a) \<times> backplane"


text \<open>
  The destination of a path solve is the cached event of the rest of the chain, which
  the solve changes in place: the model stores it again where the cache holds it.
\<close>

definition write_back :: "string list \<Rightarrow> bp_event \<Rightarrow> backplane \<Rightarrow> backplane" where
  "write_back dest_key dest bp =
     (if contains (surface_events bp) (KeyTuple dest_key) then
        bp\<lparr>surface_events := store (surface_events bp) (KeyTuple dest_key) dest\<rparr>
      else if contains (path_events bp) (KeyTuple dest_key) then
        bp\<lparr>path_events := store (path_events bp) (KeyTuple dest_key) dest\<rparr>
      else bp)"

text \<open>
  The three methods that resolve an event, as bodies that take the call for the rest
  of the chain, \<open>get_surface_event(event_key[1:])\<close>, as their argument \<open>dest_m\<close>.
\<close>

definition get_path_event_body ::
  "collaborators \<Rightarrow> (backplane \<Rightarrow> bp_event result) \<Rightarrow> string list \<Rightarrow> backplane
    \<Rightarrow> bp_event result" where
  "get_path_event_body env dest_m event_key bp =
     (case getitem (path_events bp) (KeyTuple event_key) of
        Inr found \<Rightarrow> (Inr found, bp)
      | Inl miss \<Rightarrow>
     (case dest_m bp of
        (Inl err, bp1) \<Rightarrow> (Inl err, bp1)
      | (Inr dest, bp1) \<Rightarrow>
     (if event_key = [] then (Inl IndexError, bp1)
      else case get_path env (upper (hd event_key)) of
        Inl err \<Rightarrow> (Inl err, bp1)
      | Inr path \<Rightarrow>
     (let bp2 = bp1\<lparr>solver_calls := solver_calls bp1 @ [PathSolve event_key]\<rparr>
      in case path_photon_to_event env path dest of
        Inl err \<Rightarrow> (Inl err, bp2)
      | Inr (solved, dest1) \<Rightarrow>
     (let event = solved\<lparr>event_key_of := Some event_key\<rparr>;
          bp3 = write_back (tl event_key) dest1 bp2;
          bp4 = bp3\<lparr>path_events := store (path_events bp3) (KeyTuple event_key) event\<rparr>;
          bp5 = (if length event_key = 1
                 then bp4\<lparr>path_events := store (path_events bp4) (KeyStr (hd event_key)) event\<rparr>
                 else bp4)
      in (Inr event, bp5))))))"

definition get_surface_event_w_derivs_body ::
  "collaborators \<Rightarrow> (backplane \<Rightarrow> bp_event result) \<Rightarrow> string list \<Rightarrow> backplane
    \<Rightarrow> bp_event result" where
  "get_surface_event_w_derivs_body env dest_m event_key bp =
     (case getitem (surface_events_w_derivs bp) (KeyTuple event_key) of
        Inr found \<Rightarrow> (Inr found, bp)
      | Inl miss \<Rightarrow>
     (case dest_m bp of
        (Inl err, bp1) \<Rightarrow> (Inl err, bp1)
      | (Inr dest, bp1) \<Rightarrow>
     (if event_key = [] then (Inl IndexError, bp1)
      else case get_surface env (hd event_key) of
        Inl err \<Rightarrow> (Inl err, bp1)
      | Inr surface \<Rightarrow>
     (let bp2 = bp1\<lparr>solver_calls := solver_calls bp1 @ [SurfaceSolve event_key True]\<rparr>
      in case surface_photon_to_event env surface dest True of
        Inl err \<Rightarrow> (Inl err, bp2)
      | Inr solved \<Rightarrow>
     (let event = solved\<lparr>event_key_of := Some event_key, surface_of := Some surface\<rparr>;
          event_wo_derivs = (plain event)\<lparr>event_key_of := Some event_key\<rparr>;
          bp3 = bp2\<lparr>surface_events_w_derivs :=
                      store (surface_events_w_derivs bp2) (KeyTuple event_key) event,
                    surface_events :=
                      store (surface_events bp2) (KeyTuple event_key) event_wo_derivs\<rparr>;
          bp4 = (if length event_key = 1
                 then bp3\<lparr>surface_events_w_derivs :=
                            store (surface_events_w_derivs bp3) (KeyStr (hd event_key)) event,
                          surface_events :=
                            store (surface_events bp3) (KeyStr (hd event_key)) event_wo_derivs\<rparr>
                 else bp3)
      in (Inr event, bp4))))))"

definition solve_and_save ::
  "collaborators \<Rightarrow> surface \<Rightarrow> bp_event \<Rightarrow> string list \<Rightarrow> backplane \<Rightarrow> bp_event result" where
  "solve_and_save env surface dest event_key bp =
     (let bp1 = bp\<lparr>solver_calls := solver_calls bp @ [SurfaceSolve event_key False]\<rparr>
      in case surface_photon_to_event env surface dest False of
           Inl err \<Rightarrow> (Inl err, bp1)
         | Inr solved \<Rightarrow>
             (let event = solved\<lparr>event_key_of := Some event_key, surface_of := Some surface\<rparr>
              in (Inr event,
                  bp1\<lparr>surface_events := store (surface_events bp1) (KeyTuple event_key) event\<rparr>)))"

definition get_surface_event_body ::
  "collaborators \<Rightarrow> (backplane \<Rightarrow> bp_event result) \<Rightarrow> string list \<Rightarrow> backplane
    \<Rightarrow> bp_event result" where
  "get_surface_event_body env dest_m event_key bp =
     (case getitem (surface_events bp) (KeyTuple event_key) of
        Inr found \<Rightarrow> (Inr found, bp)
      | Inl miss \<Rightarrow>
     (if event_key = [] then (Inl IndexError, bp)
      else if upper (hd event_key) = ''SUN'' \<and> length event_key > 1 then
        get_path_event_body env dest_m event_key bp
      else case dest_m bp of
        (Inl err, bp1) \<Rightarrow> (Inl err, bp1)
      | (Inr dest, bp1) \<Rightarrow>
     (case get_surface env (hd event_key) of
        Inl err \<Rightarrow> (Inl err, bp1)
      | Inr surface \<Rightarrow>
     (if length event_key = 1 \<and> intercept_DERIVS_ARE_IMPLEMENTED surface then
        (case get_surface_event_w_derivs_body env dest_m event_key bp1 of
           (Inr ignore, bp2) \<Rightarrow> (getitem (surface_events bp2) (KeyTuple event_key), bp2)
         | (Inl err, bp2) \<Rightarrow>
             (if err = NotImplementedError then solve_and_save env surface dest event_key bp2
              else (Inl err, bp2)))
      else solve_and_save env surface dest event_key bp1))))"

primrec get_surface_event :: "collaborators \<Rightarrow> string list \<Rightarrow> backplane \<Rightarrow> bp_event result" where
  "get_surface_event env [] = get_surface_event_body env (\<lambda>bp. (Inl IndexError, bp)) []"
| "get_surface_event env (name # rest) =
     get_surface_event_body env (get_surface_event env rest) (name # rest)"


definition get_path_event :: "collaborators \<Rightarrow> string list \<Rightarrow> backplane \<Rightarrow> bp_event result" where
  "get_path_event env event_key =
     get_path_event_body env (get_surface_event env (tl event_key)) event_key"

text \<open>
  \<open>get_surface_event_with_arr\<close>: the event returned is the cached object, read again
  after the path solve from the sun has filled its arrival in place.
\<close>

definition get_surface_event_with_arr ::
  "collaborators \<Rightarrow> string list \<Rightarrow> backplane \<Rightarrow> bp_event result" where
  "get_surface_event_with_arr env event_key bp =
     (case get_surface_event env event_key bp of
        (Inl err, bp1) \<Rightarrow> (Inl err, bp1)
      | (Inr event, bp1) \<Rightarrow>
          (if \<not> arr_filled event then
             (case get_path_event env (''sun'' # event_key) bp1 of
                (Inl err, bp2) \<Rightarrow> (Inl err, bp2)
              | (Inr ignore, bp2) \<Rightarrow> get_surface_event env event_key bp2)
           else (Inr event, bp1)))"

text \<open>The quantities: a value is one real, registered under its key.\<close>

definition register_backplane :: "backplane_key \<Rightarrow> real \<Rightarrow> backplane \<Rightarrow> backplane" where
  "register_backplane key v bp = bp\<lparr>backplanes := store (backplanes bp) key v\<rparr>"

definition bp_light_time ::
  "collaborators \<Rightarrow> event_key \<Rightarrow> string \<Rightarrow> backplane \<Rightarrow> real result" where
  "bp_light_time env event_key direction bp =
     (case standardize_event_key event_key of
        Inl err \<Rightarrow> (Inl err, bp)
      | Inr chain \<Rightarrow>
     (if direction \<noteq> ''dep'' \<and> direction \<noteq> ''arr'' then (Inl AssertionError, bp)
      else
        (let key = BKey ''light_time'' chain [direction]
         in if contains (backplanes bp) key then (getitem (backplanes bp) key, bp)
            else
              (case (if direction = ''arr'' then get_surface_event_with_arr env chain bp
                     else get_surface_event env chain bp) of
                 (Inl err, bp1) \<Rightarrow> (Inl err, bp1)
               | (Inr event, bp1) \<Rightarrow>
                   (case getitem (subfields event) (direction @ ''_lt'') of
                      Inl err \<Rightarrow> (Inl err, bp1)
                    | Inr lt \<Rightarrow>
                        (let bp2 = register_backplane key \<bar>lt\<bar> bp1
                         in (getitem (backplanes bp2) key, bp2)))))))"

definition distance ::
  "collaborators \<Rightarrow> event_key \<Rightarrow> string \<Rightarrow> backplane \<Rightarrow> real result" where
  "distance env event_key direction bp =
     (case standardize_event_key event_key of
        Inl err \<Rightarrow> (Inl err, bp)
      | Inr chain \<Rightarrow>
     (if direction \<noteq> ''dep'' \<and> direction \<noteq> ''arr'' then (Inl AssertionError, bp)
      else
        (let key = BKey ''distance'' chain [direction]
         in if contains (backplanes bp) key then (getitem (backplanes bp) key, bp)
            else
              (case bp_light_time env (KeyTuple chain) direction bp of
                 (Inl err, bp1) \<Rightarrow> (Inl err, bp1)
               | (Inr lt, bp1) \<Rightarrow>
                   (let bp2 = register_backplane key (lt * C) bp1
                    in (getitem (backplanes bp2) key, bp2))))))"






section \<open>Requests to a backplane\<close>




text \<open>
  The cache that a call of a solver fills: a solve of a surface with derivatives fills
  \<open>surface_events_w_derivs\<close>, one without derivatives \<open>surface_events\<close>, a solve of a path
  \<open>path_events\<close>. A call is \<open>cached\<close> when the cache it fills holds the chain.
\<close>

fun cached :: "backplane \<Rightarrow> solver_call \<Rightarrow> bool" where
  "cached bp (SurfaceSolve chain derivs) =
     (if derivs then contains (surface_events_w_derivs bp) (KeyTuple chain)
      else contains (surface_events bp) (KeyTuple chain))"
| "cached bp (PathSolve chain) = contains (path_events bp) (KeyTuple chain)"

text \<open>
  A backplane \<open>keeps\<close> what an earlier one holds when every key of the three caches of
  events is still there, every value registered for a distance or a light time is
  still registered, and no solver has been called again for a chain that was cached.
  \<open>same_above n\<close> says that the caches agree on every chain longer than \<open>n\<close>.
\<close>

definition derived_from_light_time :: "string \<Rightarrow> bool" where
  "derived_from_light_time q \<longleftrightarrow> q = ''distance'' \<or> q = ''light_time''"

definition keeps :: "backplane \<Rightarrow> backplane \<Rightarrow> bool" where
  "keeps bp bp' \<longleftrightarrow>
     (\<forall>k. contains (surface_events bp) k \<longrightarrow> contains (surface_events bp') k) \<and>
     (\<forall>k. contains (surface_events_w_derivs bp) k \<longrightarrow> contains (surface_events_w_derivs bp') k) \<and>
     (\<forall>k. contains (path_events bp) k \<longrightarrow> contains (path_events bp') k) \<and>
     (\<forall>q chain args v. derived_from_light_time q \<longrightarrow>
        getitem (backplanes bp) (BKey q chain args) = Inr v \<longrightarrow>
        getitem (backplanes bp') (BKey q chain args) = Inr v) \<and>
     (\<forall>c. cached bp c \<longrightarrow> count_list (solver_calls bp') c = count_list (solver_calls bp) c)"

definition same_above :: "nat \<Rightarrow> backplane \<Rightarrow> backplane \<Rightarrow> bool" where
  "same_above n bp bp' \<longleftrightarrow>
     (\<forall>k. n < length k \<longrightarrow>
        getitem (surface_events bp') (KeyTuple k) = getitem (surface_events bp) (KeyTuple k) \<and>
        getitem (surface_events_w_derivs bp') (KeyTuple k)
          = getitem (surface_events_w_derivs bp) (KeyTuple k) \<and>
        getitem (path_events bp') (KeyTuple k) = getitem (path_events bp) (KeyTuple k))"

section \<open>The event operations in floating point\<close>











section \<open>Well-formed registries\<close>

text \<open>
  What \<open>connect\<close> returns depends on what the registry holds and on what the frames do.
  The predicates of this section state when both fit together. A \<open>place\<close> gives, for
  every path id and time, the position and the velocity of the path relative to the
  barycenter in J2000; \<open>rot_state\<close> takes such a state from one frame into another.
\<close>

type_synonym place = "string \<Rightarrow> real \<Rightarrow> vec3 \<times> vec3"

definition rot_state :: "frames \<Rightarrow> string \<Rightarrow> string \<Rightarrow> real \<Rightarrow> vec3 \<times> vec3 \<Rightarrow> vec3 \<times> vec3" where
  "rot_state fr to_id from_id t s =
     (rotate_vec fr (Frame to_id from_id) t (fst s),
      rotate_vel fr (Frame to_id from_id) t (fst s) (snd s))"

text \<open>
  The frames are \<open>coherent\<close> when rotating is linear in the state, when unrotating by a
  frame is rotating by the frame with the two ends exchanged, and when rotating from
  \<open>a\<close> into \<open>b\<close> and then from \<open>b\<close> into \<open>c\<close> is rotating from \<open>a\<close> into \<open>c\<close>.
\<close>

definition coherent :: "frames \<Rightarrow> bool" where
  "coherent fr \<longleftrightarrow>
     (\<forall>f t u w. rotate_vec fr f t (vadd u w) = vadd (rotate_vec fr f t u) (rotate_vec fr f t w)) \<and>
     (\<forall>f t p q v w. rotate_vel fr f t (vadd p q) (vadd v w) =
        vadd (rotate_vel fr f t p v) (rotate_vel fr f t q w)) \<and>
     (\<forall>a b t u. unrotate_vec fr (Frame a b) t u = rotate_vec fr (Frame b a) t u) \<and>
     (\<forall>a b t p v. unrotate_vel fr (Frame a b) t p v = rotate_vel fr (Frame b a) t p v) \<and>
     (\<forall>a b c t u. rotate_vec fr (Frame c b) t (rotate_vec fr (Frame b a) t u) = rotate_vec fr (Frame c a) t u) \<and>
     (\<forall>a b c t p v. rotate_vel fr (Frame c b) t (rotate_vec fr (Frame b a) t p)
        (rotate_vel fr (Frame b a) t p v) = rotate_vel fr (Frame c a) t p v)"

text \<open>
  A path is \<open>sound\<close> for a placement when \<open>event_at_time\<close> returns at every time, an
  event at that time in the frame of the path whose position and velocity are the
  separation of the path from its origin, taken into that frame. The origin of a path
  is \<open>origin_ok\<close> when the events it returns name the origin of the path (those of a
  reversed path name the origin of the path it reverses).
\<close>

definition separation :: "place \<Rightarrow> string \<Rightarrow> string \<Rightarrow> real \<Rightarrow> vec3 \<times> vec3" where
  "separation place x y t =
     (vsub (fst (place x t)) (fst (place y t)), vsub (snd (place x t)) (snd (place y t)))"

definition sound :: "frames \<Rightarrow> place \<Rightarrow> path \<Rightarrow> bool" where
  "sound fr place p \<longleftrightarrow>
     (\<forall>t. \<exists>ev. event_at_time fr p t = Inr ev \<and> time ev = t \<and> e_frame_id ev = frame_id p \<and>
        (pos ev, vel ev) =
          rot_state fr (frame_id p) ''J2000'' t (separation place (path_id p) (origin_id p) t))"

definition origin_ok :: "frames \<Rightarrow> path \<Rightarrow> bool" where
  "origin_ok fr p \<longleftrightarrow> (\<forall>t ev. event_at_time fr p t = Inr ev \<longrightarrow> e_origin_id ev = origin_id p)"

text \<open>
  A list of paths is \<open>chained\<close> when each path is the origin of the one before it, as in
  an ancestry. A registry \<open>grows\<close> into another one when every entry stays and no
  primary definition is added.
\<close>

fun chained :: "path list \<Rightarrow> bool" where
  "chained (p # q # ps) \<longleftrightarrow> origin_id p = path_id q \<and> chained (q # ps)"
| "chained ps \<longleftrightarrow> True"

definition grows :: "registry \<Rightarrow> registry \<Rightarrow> bool" where
  "grows reg reg' \<longleftrightarrow>
     (\<forall>k obj. map_of reg k = Some obj \<longrightarrow> map_of reg' k = Some obj) \<and>
     (\<forall>x. map_of reg' (K1 x) = map_of reg (K1 x))"

text \<open>
  The primary definition of a path, the entry under its bare id, has the ancestry that
  \<open>register\<close> gives it: the path itself, then the ancestry of the primary definition of
  its origin, down to the barycenter, with no id twice.
\<close>

definition ancestor_ids :: "registry \<Rightarrow> string \<Rightarrow> string list" where
  "ancestor_ids reg x =
     (case map_of reg (K1 x) of
        None \<Rightarrow> []
      | Some obj \<Rightarrow> (case ancestry obj of None \<Rightarrow> [] | Some anc \<Rightarrow> map path_id anc))"

fun key_matches :: "key \<Rightarrow> path \<Rightarrow> bool" where
  "key_matches (K1 x) p \<longleftrightarrow> path_id p = x"
| "key_matches (K2 x y) p \<longleftrightarrow> path_id p = x \<and> origin_id p = y"
| "key_matches (K3 x y f) p \<longleftrightarrow> path_id p = x \<and> origin_id p = y \<and> frame_id p = f"

definition primary_ok :: "frames \<Rightarrow> registry \<Rightarrow> pobj \<Rightarrow> bool" where
  "primary_ok fr reg obj \<longleftrightarrow>
     origin_ok fr (the_path obj) \<and>
     (case ancestry obj of
        None \<Rightarrow> False
      | Some anc \<Rightarrow>
          (case anc of
             [] \<Rightarrow> False
           | q # rest \<Rightarrow>
               q = the_path obj \<and> distinct (map path_id anc) \<and>
               (case rest of
                  [] \<Rightarrow> path_id q = ''SSB''
                | r # rs \<Rightarrow>
                    origin_id q = path_id r \<and>
                    (case map_of reg (K1 (path_id r)) of
                       None \<Rightarrow> False
                     | Some ro \<Rightarrow> ancestry ro = Some rest))))"

text \<open>
  An entry of a well-formed registry is a sound path between registered ids that has
  the ids of its key. Under a pair or a triple, a path whose events do not name its
  origin does not lead to an ancestor of its own id (this is how \<open>connect_to\<close> registers
  a reversed path). A well-formed registry is not empty and has no key twice.
\<close>

fun is_primary_key :: "key \<Rightarrow> bool" where
  "is_primary_key (K1 x) = True"
| "is_primary_key k = False"

definition entry_ok :: "frames \<Rightarrow> place \<Rightarrow> registry \<Rightarrow> key \<Rightarrow> pobj \<Rightarrow> bool" where
  "entry_ok fr place reg k obj \<longleftrightarrow>
     sound fr place (the_path obj) \<and>
     has_key reg (K1 (path_id (the_path obj))) \<and>
     has_key reg (K1 (origin_id (the_path obj))) \<and>
     key_matches k (the_path obj) \<and>
     (if is_primary_key k then primary_ok fr reg obj
      else origin_ok fr (the_path obj) \<or>
           origin_id (the_path obj) \<notin> set (ancestor_ids reg (path_id (the_path obj))))"

definition registry_ok :: "frames \<Rightarrow> place \<Rightarrow> registry \<Rightarrow> bool" where
  "registry_ok fr place reg \<longleftrightarrow>
     reg \<noteq> [] \<and> distinct (map fst reg) \<and> (\<forall>(k, obj) \<in> set reg. entry_ok fr place reg k obj)"

text \<open>A placement for the scenario of the two stationary paths.\<close>

definition place_AB :: place where
  "place_AB x t = (if x = ''B'' then ((300000, 0, 0), ZERO) else (ZERO, ZERO))"

section \<open>Event operations\<close>


















section \<open>The constructor of a linear path raises\<close>

text \<open>
  C10. The claim is that a linear path constructed from a single position vector has
  the zero velocity. The constructor never gets that far: for a single Vector3, with or
  without a derivative \<open>d_dt\<close>, the call \<open>hasattr('d_dt', pos)\<close> raises TypeError, its
  second argument not being a string, and no path is constructed.
\<close>

theorem LinearPath_init_single_vector_raises:
  "LinearPath_init (PosVector v) epoch origin frame pid = Inl TypeError"
  by (simp add: LinearPath_init_def)

lemma LinearPath_init_pair:
  "LinearPath_init (PosPair p v) epoch origin frame pid =
     Inr (LinearPath pid origin frame (vals p) (vals v) epoch)"
  by (simp add: LinearPath_init_def wod_def)

section \<open>Registering with an unregistered origin\<close>

text \<open>
  C7, as amended. Registering a path as a primary definition (no shortcut) when its
  origin id is not a key of the registry raises KeyError, the failed lookup. A registry
  that is not empty is left as it was; an empty registry is left initialized, with the
  three entries of the barycenter.
\<close>

theorem register_unregistered_origin:
  assumes "\<not> has_key (if reg = [] then initialize_registry else reg)
               (K1 (origin_id (the_path self)))"
  shows "register (Suc n) self None reg =
           (Inl KeyError, if reg = [] then initialize_registry else reg)"
  using assms
  by (simp add: register_body_def has_key_def lookup_def Let_def split: option.splits)

theorem register_unregistered_origin_witness:
  "\<not> has_key (if initialize_registry = [] then initialize_registry else initialize_registry)
        (K1 (origin_id (the_path (PObj (FixedPath ''A'' ''X'' ''J2000'' (0, 0, 0)) None)))) \<and>
   register (Suc 0) (PObj (FixedPath ''A'' ''X'' ''J2000'' (0, 0, 0)) None) None
     initialize_registry = (Inl KeyError, initialize_registry)"
proof -
  have h: "\<not> has_key (if initialize_registry = [] then initialize_registry
                       else initialize_registry)
             (K1 (origin_id (the_path (PObj (FixedPath ''A'' ''X'' ''J2000'' (0, 0, 0)) None))))"
    by code_simp
  from register_unregistered_origin [OF h, of 0] h show ?thesis
    by (simp add: initialize_registry_def)
qed

text \<open>
  C7 as stated fails on the empty registry: the call raises and the registry is not
  what it was.
\<close>

theorem register_failure_changes_registry:
  "register (Suc 0) (PObj (FixedPath ''A'' ''X'' ''J2000'' (0, 0, 0)) None) None [] =
     (Inl KeyError, initialize_registry) \<and> initialize_registry \<noteq> []"
  by code_simp

section \<open>Unregistering a registered path raises\<close>

lemma has_key_delete: "has_key (AList.delete k reg) k' \<longleftrightarrow> k' \<noteq> k \<and> has_key reg k'"
  by (simp add: has_key_def delete_conv')

lemma unregister_tuple_twice:
  "has_key reg k \<Longrightarrow> unregister_tuple pid pid pid k reg = (Some KeyError, AList.delete k reg)"
  by (simp add: unregister_tuple_def delitem_def has_key_delete)

lemma unregister_key_keeps:
  "unregister_key pid k reg = (None, reg1) \<Longrightarrow> k' \<noteq> k \<Longrightarrow> has_key reg k' \<Longrightarrow> has_key reg1 k'"
  by (cases k)
    (auto simp: unregister_tuple_def delitem_def has_key_delete split: if_splits sum.splits)

lemma unregister_key_error:
  "unregister_key pid k reg = (Some err, reg1) \<Longrightarrow> err = KeyError"
  by (cases k) (auto simp: unregister_tuple_def delitem_def split: if_splits sum.splits)

lemma unregister_loop_raises:
  "K2 pid pid \<in> set ks \<Longrightarrow> distinct ks \<Longrightarrow> \<forall>k\<in>set ks. has_key reg k \<Longrightarrow>
     fst (unregister_loop pid ks reg) = Some KeyError"
proof (induction ks arbitrary: reg)
  case Nil
  then show ?case by simp
next
  case (Cons k ks)
  show ?case
  proof (cases "k = K2 pid pid")
    case True
    with Cons.prems(3) show ?thesis
      by (simp add: unregister_tuple_twice)
  next
    case False
    obtain r reg1 where step: "unregister_key pid k reg = (r, reg1)"
      by (cases "unregister_key pid k reg")
    show ?thesis
    proof (cases r)
      case None
      have "\<forall>k'\<in>set ks. has_key reg1 k'"
      proof
        fix k' assume k': "k' \<in> set ks"
        with Cons.prems(2,3) have "k' \<noteq> k" and "has_key reg k'" by auto
        with step None show "has_key reg1 k'" by (blast intro: unregister_key_keeps)
      qed
      with Cons.IH [of reg1] Cons.prems(1,2) False step None show ?thesis by simp
    next
      case (Some err)
      with unregister_key_error step show ?thesis by fastforce
    qed
  qed
qed

text \<open>
  C8. The claim is that \<open>unregister\<close> removes the entries of the path and completes
  without raising. \<open>register\<close> enters every primary definition under the pair (id, id)
  too; at that key the loop deletes the entry for its first component and deletes it
  again for its second, and the second \<open>del\<close> raises KeyError. So the call raises for
  every registry that holds this key, whatever the order of its keys.
\<close>

theorem unregister_raises:
  assumes "distinct (keys reg)"
    and "has_key reg (K2 (path_id self) (path_id self))"
  shows "fst (unregister self reg) = Some KeyError"
proof -
  have "\<forall>k\<in>set (keys reg). has_key reg k"
    by (simp add: keys_def has_key_def map_of_eq_None_iff)
  moreover have "K2 (path_id self) (path_id self) \<in> set (keys reg)"
    using assms(2) by (simp add: keys_def has_key_def map_of_eq_None_iff)
  ultimately show ?thesis
    using assms(1) unfolding unregister_def by (intro unregister_loop_raises) auto
qed

theorem unregister_raises_witness:
  "distinct (keys registry_A) \<and> has_key registry_A (K2 (path_id path_A) (path_id path_A)) \<and>
   fst (unregister path_A registry_A) = Some KeyError"
proof -
  have d: "distinct (keys registry_A)"
    by code_simp
  have h: "has_key registry_A (K2 (path_id path_A) (path_id path_A))"
    by code_simp
  from unregister_raises [OF d h] d h show ?thesis
    by simp
qed

text \<open>
  In the scenario the failed call has removed the primary entry of \<open>A\<close> and has left
  three of its composite entries in the registry.
\<close>

lemma unregister_leaves_entries:
  "keys (snd (unregister path_A registry_A)) =
     [K1 ''SSB'', K2 ''SSB'' ''SSB'', K3 ''SSB'' ''SSB'' ''J2000'',
      K3 ''A'' ''A'' ''J2000'', K2 ''A'' ''SSB'', K3 ''A'' ''SSB'' ''J2000'']"
  by code_simp

section \<open>Facts about vectors and the speed of light\<close>

lemma norm3_axis: "norm3 (x, 0, 0) = \<bar>x\<bar>"
  by (simp add: norm3_def)


lemma C_pos: "0 < C"
  by (simp add: C_def)

lemma norm3_vscale: "norm3 (vscale k w) = \<bar>k\<bar> * norm3 w"
proof (cases w)
  case (fields a b c)
  have "(k * a) * (k * a) + (k * b) * (k * b) + (k * c) * (k * c) = k\<^sup>2 * (a * a + b * b + c * c)"
    by (simp add: power2_eq_square algebra_simps)
  then show ?thesis
    by (simp add: fields norm3_def real_sqrt_mult)
qed

text \<open>The norm of the projection is the absolute value of the component.\<close>

lemma norm3_proj: "norm3 (proj v w) = \<bar>dot v w\<bar> / norm3 w"
proof (cases "dot w w = 0")
  case True
  then have "norm3 w = 0" by (simp add: norm3_def)
  then show ?thesis by (simp add: norm3_vscale proj_def)
next
  case False
  have nn: "0 \<le> dot w w" by (cases w) simp
  with False have p: "0 < dot w w" by simp
  then have sq: "norm3 w * norm3 w = dot w w" and nz: "norm3 w \<noteq> 0"
    by (simp_all add: norm3_def)
  have "norm3 (proj v w) = \<bar>dot v w\<bar> / dot w w * norm3 w"
  proof -
    have "\<bar>dot v w / dot w w\<bar> = \<bar>dot v w\<bar> / dot w w"
      using p by (simp only: abs_divide abs_of_pos)
    then show ?thesis
      by (simp only: proj_def norm3_vscale)
  qed
  also have "\<dots> = \<bar>dot v w\<bar> / (norm3 w * norm3 w) * norm3 w"
    by (simp only: sq)
  also have "\<dots> = \<bar>dot v w\<bar> / norm3 w"
    using nz by simp
  finally show ?thesis .
qed

section \<open>The Newton step of the solver\<close>

text \<open>
  What the loop computes: the derivative term is the norm of the projection of the
  relative velocity on the separation, that is the absolute value of the outward speed.
\<close>

lemma newton_step_code:
  "newton_step signed_c pe ew lt =
     lt - (norm3 (vsub (pos pe) (pos ew)) - lt * signed_c) /
          (\<bar>dot (vsub (vel pe) (vel ew)) (vsub (pos pe) (pos ew))\<bar> /
             norm3 (vsub (pos pe) (pos ew)) - signed_c)"
  by (simp add: newton_step_def Let_def norm3_proj)

text \<open>The step of the code is the step of the spec as long as the target does not approach.\<close>

lemma newton_step_agrees:
  "0 \<le> dot (vsub (vel pe) (vel ew)) (vsub (pos pe) (pos ew)) \<Longrightarrow>
     newton_step signed_c pe ew lt = newton_step_spec signed_c pe ew lt"
  by (simp add: newton_step_code newton_step_spec_def Let_def mult.commute)

lemma approaching_code_step:
  "light_time fr path_T event_at_SSB 0 (of_int 1 * C) 1 = Inr (1 - 1 / (C - 1))"
proof -
  have c: "C - 1 > 0" by (simp add: C_def)
  have g: "event_at_time fr path_T 0 =
      Inr (Event 0 (C, 0, 0) (- 1, 0, 0) ''SSB'' ''J2000'' None None None ZERO)"
    by (simp add: path_T_def)
  have e1: "event_at_time fr path_T 1 =
      Inr (Event 1 (C - 1, 0, 0) (- 1, 0, 0) ''SSB'' ''J2000'' None None None ZERO)"
    by (simp add: path_T_def)
  have n0: "norm3 (vsub (pos (Event 0 (C, 0, 0) (- 1, 0, 0) ''SSB'' ''J2000'' None None None ZERO))
              (pos event_at_SSB)) = C"
    using C_pos by (simp add: Event_def event_at_SSB_def null_event_def ZERO_def norm3_axis)
  have st: "newton_step C (Event 1 (C - 1, 0, 0) (- 1, 0, 0) ''SSB'' ''J2000'' None None None ZERO)
              event_at_SSB 1 = 1 - 1 / (C - 1)"
    using c
    by (simp add: newton_step_code Event_def event_at_SSB_def null_event_def ZERO_def
        norm3_axis field_simps)
  show ?thesis
    using C_pos by (simp add: light_time_def g n0 e1 st)
qed

lemma approaching_spec_step:
  "newton_step_spec C (Event 1 (C - 1, 0, 0) (- 1, 0, 0) ''SSB'' ''J2000'' None None None ZERO)
     event_at_SSB 1 = 1 - 1 / (C + 1)"
proof -
  have c: "C - 1 > 0" and "C * C \<noteq> 1" by (simp_all add: C_def)
  then show ?thesis
    by (simp add: newton_step_spec_def Event_def event_at_SSB_def null_event_def ZERO_def
        norm3_axis Let_def field_simps)
qed

text \<open>
  C3. The claim is that every iteration subtracts the residual over the derivative
  \<open>(\<Delta>velocity \<cdot> \<Delta>position / |\<Delta>position|) - sign c\<close>, the derivative that the comment in the
  source gives too (outward speed minus the signed speed of light). The code takes the
  norm of the projection, which drops the sign of the outward speed. For the approaching
  target and a photon leaving the barycenter at time zero, the first guess is 1 s; one
  pass of the loop leaves \<open>1 - 1 / (C - 1)\<close>, where the update of the claim gives
  \<open>1 - 1 / (C + 1)\<close>, the exact light time.
\<close>

theorem newton_step_drops_sign_of_outward_speed:
  "light_time fr path_T event_at_SSB 0 (of_int 1 * C) 1 = Inr (1 - 1 / (C - 1)) \<and>
   event_at_time fr path_T (0 + 1) =
     Inr (Event 1 (C - 1, 0, 0) (- 1, 0, 0) ''SSB'' ''J2000'' None None None ZERO) \<and>
   newton_step_spec C (Event 1 (C - 1, 0, 0) (- 1, 0, 0) ''SSB'' ''J2000'' None None None ZERO)
     event_at_SSB 1 = 1 - 1 / (C + 1) \<and>
   1 - 1 / (C - 1) \<noteq> 1 - 1 / (C + 1)"
proof -
  have "1 - 1 / (C - 1) \<noteq> 1 - 1 / (C + 1)"
    by (simp add: C_def)
  moreover have "event_at_time fr path_T (0 + 1) =
     Inr (Event 1 (C - 1, 0, 0) (- 1, 0, 0) ''SSB'' ''J2000'' None None None ZERO)"
    by (simp add: path_T_def)
  ultimately show ?thesis
    using approaching_code_step approaching_spec_step by blast
qed

section \<open>What a photon solve returns and changes\<close>







section \<open>The scenario, solved\<close>

lemma event_at_time_B: "event_at_time fr path_B t = Inr (event_on_B t)"
  by (simp add: path_B_def event_on_B_def)

lemma connect_A:
  "connect 3 ''A'' ''SSB'' (Some ''J2000'') registry_AB =
     (Inr (PObj path_A (Some [path_A, Waypoint ''SSB'' ''SSB'' ''J2000''])), registry_AB)"
  by code_simp

lemma wrt_ssb_B:
  "wrt_ssb fr n (event_on_B t) reg =
     (Inr (ssb_event (core (event_on_B t)), (event_on_B t)\<lparr>ssb := Some (core (event_on_B t))\<rparr>),
      reg)"
  by (simp add: wrt_ssb_def wrt_def wrt_path_def wrt_frame_def event_on_B_def Event_def)

lemma newton_stationary:
  "newton_step (- C) (Event t' (0, 0, 0) ZERO ''SSB'' ''J2000'' None None None ZERO)
     (ssb_event (core (event_on_B t))) (- (300000 / C)) = - (300000 / C)"
  using C_pos
  by (simp add: newton_step_def Event_def ssb_event_def core_def event_on_B_def ZERO_def
      norm3_axis proj_def)

lemma event_at_time_A:
  "event_at_time fr path_A s = Inr (Event s (0, 0, 0) ZERO ''SSB'' ''J2000'' None None None ZERO)"
  by (simp add: path_A_def)

lemma newton_loop_stationary:
  "newton_loop fr path_A (ssb_event (core (event_on_B t))) t (- C) k (- (300000 / C)) =
     Inr (- (300000 / C))"
  by (induction k) (simp_all add: event_at_time_A newton_stationary)

lemma light_time_AB:
  "light_time fr path_A (ssb_event (core (event_on_B t))) t (- C) iters = Inr (- (300000 / C))"
proof -
  have g: "norm3 (vsub (pos (Event t (0, 0, 0) ZERO ''SSB'' ''J2000'' None None None ZERO))
             (pos (ssb_event (core (event_on_B t))))) = 300000"
    by (simp add: Event_def ssb_event_def core_def event_on_B_def norm3_axis)
  show ?thesis
    unfolding light_time_def event_at_time_A
    by (simp add: g newton_loop_stationary del: vsub.simps)
qed

text \<open>
  The solve from the event on \<open>B\<close> against \<open>A\<close> in the direction from the target, for
  every number of iterations, every time and every rotation of frames: it returns, the
  registry is as before, the light time is negative, and the arrival vector of the
  event is the whole vector from \<open>A\<close> to \<open>B\<close>.
\<close>

lemma solve_scenario:
  "\<exists>a r ev. solve_photon fr 3 path_A (event_on_B t) (- 1) iters registry_AB =
               (Inr (a, r, ev), registry_AB) \<and>
     time r = - (300000 / C) \<and> arr ev = Some (300000, 0, 0) \<and> dep ev = None \<and>
     pos ev = (300000, 0, 0) \<and> pos a = (0, 0, 0) \<and> pos r = (- 300000, 0, 0)"
proof -
  have ids: "path_id path_A = ''A''" "frame_id path_A = ''J2000''" "origin_id path_A = ''SSB''"
    by (simp_all add: path_A_def)
  have tm: "time (event_on_B t) = t"
    by (simp add: event_on_B_def Event_def)
  show ?thesis
    unfolding solve_photon_def
    apply (simp add: ids connect_A wrt_ssb_B tm light_time_AB event_at_time_A)
    apply (simp add: ids connect_A fill_photon_def wrt_def wrt_path_def event_at_time_A Let_def
        wrt_event_def wrt_frame_def Event_def ssb_event_def core_def event_on_B_def ZERO_def)
    done
qed

lemma light_time_bounds: "1.00069 < 300000 / C \<and> 300000 / C < 1.0007"
  by (simp add: C_def)





text \<open>
  C1, as amended. In the scenario, \<open>photon_to_event\<close> of \<open>A\<close> for the event at time \<open>t\<close>
  on \<open>B\<close>, with three iterations, returns the light time \<open>- 300000 / C\<close>: negative, since
  the photon left \<open>A\<close> earlier, and of magnitude about 1.0007 s. The arrival vector that
  it leaves on the event is the vector from \<open>A\<close> to \<open>B\<close>, of length 300000 km: the solver
  normalizes no photon direction.
\<close>

theorem scenario_light_time_and_arrival:
  "\<exists>a r ev. photon_to_event fr 3 path_A (event_on_B t) 3 registry_AB =
               (Inr (a, r, ev), registry_AB) \<and>
     time r = - (300000 / C) \<and> 1.00069 < \<bar>time r\<bar> \<and> \<bar>time r\<bar> < 1.0007 \<and>
     arr ev = Some (vsub (300000, 0, 0) (0, 0, 0)) \<and> dep ev = None"
proof -
  from solve_scenario [of fr t 3] obtain a r ev where
    s: "solve_photon fr 3 path_A (event_on_B t) (- 1) 3 registry_AB =
          (Inr (a, r, ev), registry_AB)"
    and t: "time r = - (300000 / C)" and a: "arr ev = Some (300000, 0, 0)" and d: "dep ev = None"
    by blast
  have "\<bar>time r\<bar> = 300000 / C"
    using C_pos by (simp add: t)
  with light_time_bounds s t a d show ?thesis
    unfolding photon_to_event_def by auto
qed

text \<open>
  C1 as stated fails: the arrival vector is not the unit vector from \<open>A\<close> to \<open>B\<close>, and
  the light time returned is not a positive number.
\<close>

theorem scenario_arrival_is_not_a_unit_vector:
  "\<exists>a r ev. photon_to_event aligned_frames 3 path_A (event_on_B 0) 3 registry_AB =
               (Inr (a, r, ev), registry_AB) \<and>
     arr ev = Some (300000, 0, 0) \<and> arr ev \<noteq> Some (1, 0, 0) \<and>
     norm3 (300000, 0, 0) = 300000 \<and> time r < 0"
proof -
  from solve_scenario [of aligned_frames 0 3] obtain a r ev where
    s: "solve_photon aligned_frames 3 path_A (event_on_B 0) (- 1) 3 registry_AB =
          (Inr (a, r, ev), registry_AB)"
    and t: "time r = - (300000 / C)" and a: "arr ev = Some (300000, 0, 0)"
    by blast
  have "time r < 0"
    using C_pos by (simp add: t)
  with s a show ?thesis
    unfolding photon_to_event_def by (auto simp: norm3_axis)
qed

section \<open>The caches of a backplane\<close>

lemma getitem_store: "getitem (store d k v) k' = (if k' = k then Inr v else getitem d k')"
  by (simp add: getitem_def store_def update_conv')

lemma contains_store: "contains (store d k v) k' \<longleftrightarrow> k' = k \<or> contains d k'"
  by (simp add: contains_def store_def update_conv')

lemma contains_getitem: "contains d k \<longleftrightarrow> (\<exists>v. getitem d k = Inr v)"
  by (auto simp: contains_def getitem_def split: option.splits)

lemma bp_light_time_registered:
  assumes "bp_light_time env k dir bp = (Inr v, bp1)" and "standardize_event_key k = Inr chain"
  shows "getitem (backplanes bp1) (BKey ''light_time'' chain [dir]) = Inr v \<and>
         (dir = ''dep'' \<or> dir = ''arr'')"
  using assms unfolding bp_light_time_def Let_def
  by (auto simp: register_backplane_def getitem_store split: sum.splits if_splits prod.splits)

lemma bp_light_time_cached:
  assumes "bp_light_time env k dir bp = (Inr v, bp1)"
    and "standardize_event_key k' = standardize_event_key k"
  shows "bp_light_time env k' dir bp1 = (Inr v, bp1)"
proof -
  from assms(1) obtain chain where c: "standardize_event_key k = Inr chain"
    unfolding bp_light_time_def by (cases "standardize_event_key k") auto
  from bp_light_time_registered [OF assms(1) c] show ?thesis
    unfolding bp_light_time_def Let_def
    by (auto simp: assms(2) c contains_getitem)
qed

lemma distance_registered:
  assumes "distance env k dir bp = (Inr v, bp1)" and "standardize_event_key k = Inr chain"
  shows "getitem (backplanes bp1) (BKey ''distance'' chain [dir]) = Inr v \<and>
         (dir = ''dep'' \<or> dir = ''arr'')"
  using assms unfolding distance_def Let_def
  by (auto simp: register_backplane_def getitem_store split: sum.splits if_splits prod.splits)

lemma distance_cached:
  assumes "distance env k dir bp = (Inr v, bp1)"
    and "standardize_event_key k' = standardize_event_key k"
  shows "distance env k' dir bp1 = (Inr v, bp1)"
proof -
  from assms(1) obtain chain where c: "standardize_event_key k = Inr chain"
    unfolding distance_def by (cases "standardize_event_key k") auto
  from distance_registered [OF assms(1) c] show ?thesis
    unfolding distance_def Let_def
    by (auto simp: assms(2) c contains_getitem)
qed

lemma write_back_surface_events:
  "k \<noteq> dest_key \<Longrightarrow>
     getitem (surface_events (write_back dest_key dest bp)) (KeyTuple k) =
     getitem (surface_events bp) (KeyTuple k)"
  by (simp add: write_back_def getitem_store)

lemma write_back_path_events:
  "k \<noteq> dest_key \<Longrightarrow>
     getitem (path_events (write_back dest_key dest bp)) (KeyTuple k) =
     getitem (path_events bp) (KeyTuple k)"
  by (simp add: write_back_def getitem_store)

lemma get_path_event_body_frame:
  assumes "\<And>b r b'. dest_m b = (r, b') \<Longrightarrow>
             getitem (surface_events b') (KeyTuple k) = getitem (surface_events b) (KeyTuple k)"
    and "k \<noteq> tl key"
    and "get_path_event_body env dest_m key bp = (res, bp')"
  shows "getitem (surface_events bp') (KeyTuple k) = getitem (surface_events bp) (KeyTuple k)"
  using assms(3) assms(1) assms(2) unfolding get_path_event_body_def Let_def
  by (auto simp: write_back_surface_events split: sum.splits prod.splits if_splits)

lemma get_surface_event_w_derivs_body_frame:
  assumes "\<And>b r b'. dest_m b = (r, b') \<Longrightarrow>
             getitem (surface_events b') (KeyTuple k) = getitem (surface_events b) (KeyTuple k)"
    and "k \<noteq> key"
    and "get_surface_event_w_derivs_body env dest_m key bp = (res, bp')"
  shows "getitem (surface_events bp') (KeyTuple k) = getitem (surface_events bp) (KeyTuple k)"
  using assms(3) assms(1) assms(2) unfolding get_surface_event_w_derivs_body_def Let_def
  by (auto simp: getitem_store split: sum.splits prod.splits if_splits)

lemma solve_and_save_frame:
  assumes "k \<noteq> key" and "solve_and_save env surface dest key bp = (res, bp')"
  shows "getitem (surface_events bp') (KeyTuple k) = getitem (surface_events bp) (KeyTuple k)"
  using assms(2) assms(1) unfolding solve_and_save_def Let_def
  by (auto simp: getitem_store split: sum.splits)

lemma get_surface_event_body_frame:
  assumes dm: "\<And>b r b'. dest_m b = (r, b') \<Longrightarrow>
             getitem (surface_events b') (KeyTuple k) = getitem (surface_events b) (KeyTuple k)"
    and "k \<noteq> key" and "k \<noteq> tl key"
    and "get_surface_event_body env dest_m key bp = (res, bp')"
  shows "getitem (surface_events bp') (KeyTuple k) = getitem (surface_events bp) (KeyTuple k)"
proof (cases "getitem (surface_events bp) (KeyTuple key)")
  case (Inr found)
  with assms(4) show ?thesis by (simp add: get_surface_event_body_def cong: conj_cong)
next
  case miss: (Inl m)
  show ?thesis
  proof (cases "key = []")
    case True
    with miss assms(4) show ?thesis by (simp add: get_surface_event_body_def cong: conj_cong)
  next
    case nonempty: False
    show ?thesis
    proof (cases "upper (hd key) = ''SUN'' \<and> length key > 1")
      case True
      with miss nonempty assms(4) have "get_path_event_body env dest_m key bp = (res, bp')"
        by (simp add: get_surface_event_body_def cong: conj_cong)
      from get_path_event_body_frame [OF dm assms(3) this] show ?thesis .
    next
      case notsun: False
      obtain r1 bp1 where d: "dest_m bp = (r1, bp1)" by (cases "dest_m bp")
      note f1 = dm [OF d]
      show ?thesis
      proof (cases r1)
        case (Inl err)
        with miss nonempty notsun assms(4) d f1 show ?thesis
          by (simp add: get_surface_event_body_def cong: conj_cong)
      next
        case (Inr dest)
        show ?thesis
        proof (cases "get_surface env (hd key)")
          case (Inl err)
          with miss nonempty notsun assms(4) d f1 Inr
          show ?thesis
            by (simp add: get_surface_event_body_def cong: conj_cong)
        next
          case surf: (Inr surface)
          show ?thesis
          proof (cases "length key = 1 \<and> intercept_DERIVS_ARE_IMPLEMENTED surface")
            case False
            with miss nonempty notsun assms(4) d Inr surf
            have "solve_and_save env surface dest key bp1 = (res, bp')"
              by (auto simp add: get_surface_event_body_def cong: conj_cong)
            from solve_and_save_frame [OF assms(2) this] f1 show ?thesis by simp
          next
            case True
            obtain r2 bp2 where w: "get_surface_event_w_derivs_body env dest_m key bp1 = (r2, bp2)"
              by (cases "get_surface_event_w_derivs_body env dest_m key bp1")
            note f2 = get_surface_event_w_derivs_body_frame [OF dm assms(2) w]
            from miss nonempty notsun assms(4) d Inr surf True w
            have "(res, bp') = (getitem (surface_events bp2) (KeyTuple key), bp2) \<or>
                  (res, bp') = (r2, bp2) \<or>
                  solve_and_save env surface dest key bp2 = (res, bp')"
              by (auto simp add: get_surface_event_body_def split: sum.splits if_splits cong: conj_cong)
            with f1 f2 solve_and_save_frame [OF assms(2), of env surface dest bp2 res bp']
            show ?thesis by auto
          qed
        qed
      qed
    qed
  qed
qed

lemma get_surface_event_frame:
  "get_surface_event env ks bp = (res, bp') \<Longrightarrow> length ks < length k \<Longrightarrow>
     getitem (surface_events bp') (KeyTuple k) = getitem (surface_events bp) (KeyTuple k)"
proof (induction ks arbitrary: bp res bp')
  case Nil
  have dm: "\<And>b r b'. (\<lambda>bp. (Inl IndexError, bp)) b = (r, b') \<Longrightarrow>
          getitem (surface_events b') (KeyTuple k) = getitem (surface_events b) (KeyTuple k)"
    by simp
  from Nil have "k \<noteq> []" and "k \<noteq> tl []"
    and "get_surface_event_body env (\<lambda>bp. (Inl IndexError, bp)) [] bp = (res, bp')"
    by auto
  from get_surface_event_body_frame [OF dm this] show ?case .
next
  case (Cons name rest)
  have dm: "\<And>b r b'. get_surface_event env rest b = (r, b') \<Longrightarrow>
          getitem (surface_events b') (KeyTuple k) = getitem (surface_events b) (KeyTuple k)"
    using Cons.IH Cons.prems(2) by simp
  from Cons.prems have "k \<noteq> name # rest" and "k \<noteq> tl (name # rest)"
    by auto
  from get_surface_event_body_frame [OF dm this] Cons.prems(1) show ?case
    by simp
qed

lemma get_path_event_body_stored:
  assumes "get_path_event_body env dest_m key bp = (Inr e, bp1)"
  shows "getitem (path_events bp1) (KeyTuple key) = Inr e"
  using assms unfolding get_path_event_body_def Let_def
  by (auto simp: getitem_store split: sum.splits prod.splits if_splits)

lemma solve_and_save_stored:
  assumes "solve_and_save env surface dest key bp = (Inr e, bp1)"
  shows "getitem (surface_events bp1) (KeyTuple key) = Inr e"
  using assms unfolding solve_and_save_def Let_def
  by (auto simp: getitem_store split: sum.splits)

lemma get_surface_event_body_stored:
  assumes dm: "\<And>b r b'. dest_m b = (r, b') \<Longrightarrow>
             getitem (surface_events b') (KeyTuple key) = getitem (surface_events b) (KeyTuple key)"
    and ret: "get_surface_event_body env dest_m key bp = (Inr e, bp1)"
  shows "getitem (surface_events bp1) (KeyTuple key) = Inr e \<or>
         (key \<noteq> [] \<and> upper (hd key) = ''SUN'' \<and> length key > 1 \<and>
          (\<exists>m. getitem (surface_events bp1) (KeyTuple key) = Inl m) \<and>
          getitem (path_events bp1) (KeyTuple key) = Inr e)"
proof (cases "getitem (surface_events bp) (KeyTuple key)")
  case (Inr found)
  with ret show ?thesis by (simp add: get_surface_event_body_def)
next
  case miss: (Inl m)
  show ?thesis
  proof (cases "key = []")
    case True
    with miss ret show ?thesis by (simp add: get_surface_event_body_def)
  next
    case nonempty: False
    then have ne: "key \<noteq> tl key" by (cases key) auto
    show ?thesis
    proof (cases "upper (hd key) = ''SUN'' \<and> length key > 1")
      case True
      with miss nonempty ret have p: "get_path_event_body env dest_m key bp = (Inr e, bp1)"
        by (simp add: get_surface_event_body_def)
      from get_path_event_body_frame [OF dm ne p] miss get_path_event_body_stored [OF p]
        True nonempty
      show ?thesis by simp
    next
      case notsun: False
      obtain r1 bp' where d: "dest_m bp = (r1, bp')" by (cases "dest_m bp")
      show ?thesis
      proof (cases r1)
        case (Inl err)
        with miss nonempty notsun ret d show ?thesis
          by (simp add: get_surface_event_body_def cong: conj_cong)
      next
        case (Inr dest)
        show ?thesis
        proof (cases "get_surface env (hd key)")
          case (Inl err)
          with miss nonempty notsun ret d Inr show ?thesis
            by (simp add: get_surface_event_body_def cong: conj_cong)
        next
          case surf: (Inr surface)
          show ?thesis
          proof (cases "length key = 1 \<and> intercept_DERIVS_ARE_IMPLEMENTED surface")
            case False
            with miss nonempty notsun ret d Inr surf
            have "solve_and_save env surface dest key bp' = (Inr e, bp1)"
              by (auto simp add: get_surface_event_body_def cong: conj_cong)
            from solve_and_save_stored [OF this] show ?thesis by simp
          next
            case True
            obtain r2 bp2 where w: "get_surface_event_w_derivs_body env dest_m key bp' = (r2, bp2)"
              by (cases "get_surface_event_w_derivs_body env dest_m key bp'")
            from miss nonempty notsun ret d Inr surf True w
            have "(Inr e, bp1) = (getitem (surface_events bp2) (KeyTuple key), bp2) \<or>
                  solve_and_save env surface dest key bp2 = (Inr e, bp1)"
              by (auto simp add: get_surface_event_body_def split: sum.splits if_splits
                  cong: conj_cong)
            with solve_and_save_stored [of env surface dest key bp2 e bp1]
            show ?thesis by auto
          qed
        qed
      qed
    qed
  qed
qed

lemma get_surface_event_body_again:
  assumes "getitem (surface_events bp1) (KeyTuple key) = Inr e \<or>
         (key \<noteq> [] \<and> upper (hd key) = ''SUN'' \<and> length key > 1 \<and>
          (\<exists>m. getitem (surface_events bp1) (KeyTuple key) = Inl m) \<and>
          getitem (path_events bp1) (KeyTuple key) = Inr e)"
  shows "get_surface_event_body env dest_m key bp1 = (Inr e, bp1)"
  using assms
  by (auto simp: get_surface_event_body_def get_path_event_body_def)

lemma get_surface_event_cached:
  assumes "get_surface_event env key bp = (Inr e, bp1)"
  shows "get_surface_event env key bp1 = (Inr e, bp1)"
proof (cases key)
  case Nil
  from assms Nil
  have b: "get_surface_event_body env (\<lambda>bp. (Inl IndexError, bp)) key bp = (Inr e, bp1)"
    by simp
  have "getitem (surface_events bp1) (KeyTuple key) = Inr e \<or>
         (key \<noteq> [] \<and> upper (hd key) = ''SUN'' \<and> length key > 1 \<and>
          (\<exists>m. getitem (surface_events bp1) (KeyTuple key) = Inl m) \<and>
          getitem (path_events bp1) (KeyTuple key) = Inr e)"
    by (rule get_surface_event_body_stored [where dest_m = "\<lambda>bp. (Inl IndexError, bp)", OF _ b])
      simp
  then have "get_surface_event_body env (\<lambda>bp. (Inl IndexError, bp)) key bp1 = (Inr e, bp1)"
    by (rule get_surface_event_body_again)
  with Nil show ?thesis by simp
next
  case (Cons name rest)
  from assms Cons
  have b: "get_surface_event_body env (get_surface_event env rest) key bp = (Inr e, bp1)"
    by simp
  have "getitem (surface_events bp1) (KeyTuple key) = Inr e \<or>
         (key \<noteq> [] \<and> upper (hd key) = ''SUN'' \<and> length key > 1 \<and>
          (\<exists>m. getitem (surface_events bp1) (KeyTuple key) = Inl m) \<and>
          getitem (path_events bp1) (KeyTuple key) = Inr e)"
  proof (rule get_surface_event_body_stored [where dest_m = "get_surface_event env rest", OF _ b])
    fix b r b'
    assume "get_surface_event env rest b = (r, b')"
    then show "getitem (surface_events b') (KeyTuple key) = getitem (surface_events b) (KeyTuple key)"
      by (rule get_surface_event_frame) (simp add: Cons)
  qed
  then have "get_surface_event_body env (get_surface_event env rest) key bp1 = (Inr e, bp1)"
    by (rule get_surface_event_body_again)
  with Cons show ?thesis by simp
qed

section \<open>What a backplane keeps over later requests\<close>

lemma keepsI:
  assumes "\<And>k. contains (surface_events bp) k \<Longrightarrow> contains (surface_events bp') k"
    and "\<And>k. contains (surface_events_w_derivs bp) k \<Longrightarrow> contains (surface_events_w_derivs bp') k"
    and "\<And>k. contains (path_events bp) k \<Longrightarrow> contains (path_events bp') k"
    and "\<And>q chain args v. derived_from_light_time q \<Longrightarrow>
        getitem (backplanes bp) (BKey q chain args) = Inr v \<Longrightarrow>
        getitem (backplanes bp') (BKey q chain args) = Inr v"
    and "\<And>c. cached bp c \<Longrightarrow> count_list (solver_calls bp') c = count_list (solver_calls bp) c"
  shows "keeps bp bp'"
  using assms by (simp add: keeps_def)


















lemma cached_log: "cached (bp\<lparr>solver_calls := xs\<rparr>) c = cached bp c"
  by (cases c) simp_all



lemma keeps_write_back: "keeps bp (write_back k d bp)"
  by (rule keepsI) (simp_all add: write_back_def contains_store)

lemma same_above_write_back: "length k \<le> n \<Longrightarrow> same_above n bp (write_back k d bp)"
  by (auto simp: same_above_def write_back_def getitem_store)


































section \<open>Coherent frames and separations\<close>

lemma vadd_ZERO: "vadd u ZERO = u" "vadd ZERO u = u"
  by (cases u; simp add: ZERO_def)+

lemma vadd_cancel_left: "u = vadd u w \<Longrightarrow> w = ZERO"
  by (cases u; cases w) (simp add: ZERO_def)

lemma vadd_vneg: "vadd u (vneg u) = ZERO"
  by (cases u) (simp add: ZERO_def)

lemma vadd_eq_ZERO: "vadd u w = ZERO \<Longrightarrow> w = vneg u"
  by (cases u; cases w) (auto simp: ZERO_def)

lemma vsub_as_vadd: "vsub u w = vadd u (vneg w)"
  by (cases u; cases w) simp

lemma rotate_vadd:
  "coherent fr \<Longrightarrow> rotate_vec fr f t (vadd u w) = vadd (rotate_vec fr f t u) (rotate_vec fr f t w)"
  unfolding coherent_def by (elim conjE) (simp only:)

lemma rotate_vel_vadd:
  "coherent fr \<Longrightarrow> rotate_vel fr f t (vadd p q) (vadd v w) =
     vadd (rotate_vel fr f t p v) (rotate_vel fr f t q w)"
  unfolding coherent_def by (elim conjE) (simp only:)

lemma rotate_ZERO: "coherent fr \<Longrightarrow> rotate_vec fr f t ZERO = ZERO"
  using rotate_vadd [of fr f t ZERO ZERO] by (simp add: vadd_ZERO vadd_cancel_left)

lemma rotate_vneg: "coherent fr \<Longrightarrow> rotate_vec fr f t (vneg u) = vneg (rotate_vec fr f t u)"
  using rotate_vadd [of fr f t u "vneg u"] by (simp add: vadd_vneg rotate_ZERO vadd_eq_ZERO)

lemma rotate_vsub:
  "coherent fr \<Longrightarrow> rotate_vec fr f t (vsub u w) = vsub (rotate_vec fr f t u) (rotate_vec fr f t w)"
  by (simp add: vsub_as_vadd rotate_vneg rotate_vadd)

lemma rotate_vel_ZERO: "coherent fr \<Longrightarrow> rotate_vel fr f t ZERO ZERO = ZERO"
  using rotate_vel_vadd [of fr f t ZERO ZERO ZERO ZERO] by (simp add: vadd_ZERO vadd_cancel_left)

lemma rotate_vel_vneg:
  "coherent fr \<Longrightarrow> rotate_vel fr f t (vneg p) (vneg v) = vneg (rotate_vel fr f t p v)"
  using rotate_vel_vadd [of fr f t p "vneg p" v "vneg v"]
  by (simp add: vadd_vneg rotate_vel_ZERO vadd_eq_ZERO)

lemma rotate_vel_vsub:
  "coherent fr \<Longrightarrow> rotate_vel fr f t (vsub p q) (vsub v w) =
     vsub (rotate_vel fr f t p v) (rotate_vel fr f t q w)"
  by (simp add: vsub_as_vadd rotate_vel_vneg rotate_vel_vadd)

lemma rotate_compose:
  "coherent fr \<Longrightarrow>
     rotate_vec fr (Frame c b) t (rotate_vec fr (Frame b a) t u) = rotate_vec fr (Frame c a) t u"
  unfolding coherent_def by (elim conjE) (simp only:)

lemma rotate_vel_compose:
  "coherent fr \<Longrightarrow> rotate_vel fr (Frame c b) t (rotate_vec fr (Frame b a) t p)
        (rotate_vel fr (Frame b a) t p v) = rotate_vel fr (Frame c a) t p v"
  unfolding coherent_def by (elim conjE) (simp only:)

lemma unrotate_is_rotate:
  "coherent fr \<Longrightarrow> unrotate_vec fr (Frame a b) t u = rotate_vec fr (Frame b a) t u"
  "coherent fr \<Longrightarrow> unrotate_vel fr (Frame a b) t p v = rotate_vel fr (Frame b a) t p v"
  unfolding coherent_def by (elim conjE, simp only:)+

lemma separation_chain:
  "vadd (fst (separation place x y t)) (fst (separation place y z t)) = fst (separation place x z t)"
  "vadd (snd (separation place x y t)) (snd (separation place y z t)) = snd (separation place x z t)"
  by (cases "fst (place x t)"; cases "fst (place y t)"; cases "fst (place z t)";
      cases "snd (place x t)"; cases "snd (place y t)"; cases "snd (place z t)";
      simp add: separation_def)+

lemma separation_diff:
  "vsub (fst (separation place x z t)) (fst (separation place y z t)) = fst (separation place x y t)"
  "vsub (snd (separation place x z t)) (snd (separation place y z t)) = snd (separation place x y t)"
  by (cases "fst (place x t)"; cases "fst (place y t)"; cases "fst (place z t)";
      cases "snd (place x t)"; cases "snd (place y t)"; cases "snd (place z t)";
      simp add: separation_def)+

lemma separation_neg:
  "vneg (fst (separation place x y t)) = fst (separation place y x t)"
  "vneg (snd (separation place x y t)) = snd (separation place y x t)"
  by (cases "fst (place x t)"; cases "fst (place y t)";
      cases "snd (place x t)"; cases "snd (place y t)"; simp add: separation_def)+

lemma separation_self: "separation place x x t = (ZERO, ZERO)"
  by (cases "fst (place x t)"; cases "snd (place x t)") (simp add: separation_def ZERO_def)

section \<open>The constructed paths are sound\<close>

lemma soundD:
  assumes "sound fr place p"
  obtains ev where "event_at_time fr p t = Inr ev" "time ev = t" "e_frame_id ev = frame_id p"
    "pos ev = rotate_vec fr (Frame (frame_id p) ''J2000'') t
               (fst (separation place (path_id p) (origin_id p) t))"
    "vel ev = rotate_vel fr (Frame (frame_id p) ''J2000'') t
               (fst (separation place (path_id p) (origin_id p) t))
               (snd (separation place (path_id p) (origin_id p) t))"
proof -
  from assms obtain ev where "event_at_time fr p t = Inr ev \<and> time ev = t \<and>
      e_frame_id ev = frame_id p \<and>
      (pos ev, vel ev) =
        rot_state fr (frame_id p) ''J2000'' t (separation place (path_id p) (origin_id p) t)"
    unfolding sound_def by blast
  then show thesis using that [of ev] by (simp add: rot_state_def)
qed

lemma soundI:
  assumes "\<And>t. \<exists>ev. event_at_time fr p t = Inr ev \<and> time ev = t \<and> e_frame_id ev = frame_id p \<and>
    pos ev = rotate_vec fr (Frame (frame_id p) ''J2000'') t
               (fst (separation place (path_id p) (origin_id p) t)) \<and>
    vel ev = rotate_vel fr (Frame (frame_id p) ''J2000'') t
               (fst (separation place (path_id p) (origin_id p) t))
               (snd (separation place (path_id p) (origin_id p) t))"
  shows "sound fr place p"
  unfolding sound_def rot_state_def using assms by simp

lemma origin_okD:
  "origin_ok fr p \<Longrightarrow> event_at_time fr p t = Inr ev \<Longrightarrow> e_origin_id ev = origin_id p"
  unfolding origin_ok_def by blast

lemma sound_Waypoint:
  assumes "coherent fr"
  shows "sound fr place (Waypoint_init x f)"
  by (rule soundI)
     (simp add: Waypoint_init_def null_event_def Event_def separation_self
        rotate_ZERO [OF assms] rotate_vel_ZERO [OF assms])

lemma origin_ok_Waypoint: "origin_ok fr (Waypoint_init x f)"
  by (simp add: origin_ok_def Waypoint_init_def null_event_def Event_def)

lemma sound_Rotated:
  assumes c: "coherent fr" and s: "sound fr place p"
  shows "sound fr place (Rotated_init p f)"
proof (rule soundI)
  fix t
  from s obtain ev where ev: "event_at_time fr p t = Inr ev" "time ev = t"
    "e_frame_id ev = frame_id p"
    "pos ev = rotate_vec fr (Frame (frame_id p) ''J2000'') t
               (fst (separation place (path_id p) (origin_id p) t))"
    "vel ev = rotate_vel fr (Frame (frame_id p) ''J2000'') t
               (fst (separation place (path_id p) (origin_id p) t))
               (snd (separation place (path_id p) (origin_id p) t))"
    by (rule soundD)
  show "\<exists>ev. event_at_time fr (Rotated_init p f) t = Inr ev \<and> time ev = t \<and>
      e_frame_id ev = frame_id (Rotated_init p f) \<and>
      pos ev = rotate_vec fr (Frame (frame_id (Rotated_init p f)) ''J2000'') t
        (fst (separation place (path_id (Rotated_init p f)) (origin_id (Rotated_init p f)) t)) \<and>
      vel ev = rotate_vel fr (Frame (frame_id (Rotated_init p f)) ''J2000'') t
        (fst (separation place (path_id (Rotated_init p f)) (origin_id (Rotated_init p f)) t))
        (snd (separation place (path_id (Rotated_init p f)) (origin_id (Rotated_init p f)) t))"
    using ev
    by (simp add: Rotated_init_def frame_connect_def rotate_by_frame_def
          rotate_compose [OF c] rotate_vel_compose [OF c])
qed

lemma Rotated_ids:
  "path_id (Rotated_init p f) = path_id p" "origin_id (Rotated_init p f) = origin_id p"
  "frame_id (Rotated_init p f) = f"
  by (simp_all add: Rotated_init_def)

lemma origin_ok_Rotated: "origin_ok fr p \<Longrightarrow> origin_ok fr (Rotated_init p f)"
  by (auto simp: origin_ok_def Rotated_init_def rotate_by_frame_def split: sum.splits)

lemma sound_Reversed:
  assumes c: "coherent fr" and s: "sound fr place p"
  shows "sound fr place (Reversed_init p)"
proof (rule soundI)
  fix t
  from s obtain ev where ev: "event_at_time fr p t = Inr ev" "time ev = t"
    "e_frame_id ev = frame_id p"
    "pos ev = rotate_vec fr (Frame (frame_id p) ''J2000'') t
               (fst (separation place (path_id p) (origin_id p) t))"
    "vel ev = rotate_vel fr (Frame (frame_id p) ''J2000'') t
               (fst (separation place (path_id p) (origin_id p) t))
               (snd (separation place (path_id p) (origin_id p) t))"
    by (rule soundD)
  show "\<exists>ev. event_at_time fr (Reversed_init p) t = Inr ev \<and> time ev = t \<and>
      e_frame_id ev = frame_id (Reversed_init p) \<and>
      pos ev = rotate_vec fr (Frame (frame_id (Reversed_init p)) ''J2000'') t
        (fst (separation place (path_id (Reversed_init p)) (origin_id (Reversed_init p)) t)) \<and>
      vel ev = rotate_vel fr (Frame (frame_id (Reversed_init p)) ''J2000'') t
        (fst (separation place (path_id (Reversed_init p)) (origin_id (Reversed_init p)) t))
        (snd (separation place (path_id (Reversed_init p)) (origin_id (Reversed_init p)) t))"
    using ev
    by (simp add: Reversed_init_def rotate_vneg [OF c, symmetric]
          rotate_vel_vneg [OF c, symmetric] separation_neg)
qed

lemma Reversed_ids:
  "path_id (Reversed_init p) = origin_id p" "origin_id (Reversed_init p) = path_id p"
  "frame_id (Reversed_init p) = frame_id p"
  by (simp_all add: Reversed_init_def)

lemma sound_Relative:
  assumes c: "coherent fr" and sp: "sound fr place p" and so: "sound fr place orig"
    and op: "origin_ok fr p" and eq: "origin_id p = origin_id orig"
  shows "\<exists>r. Relative_init p orig = Inr r \<and> sound fr place r \<and> origin_ok fr r \<and>
           path_id r = path_id p \<and> origin_id r = path_id orig \<and> frame_id r = frame_id orig"
proof -
  let ?r = "Relative (path_id p) (path_id orig) (frame_id orig) p orig
              (Frame (frame_id p) (frame_id orig))"
  have init: "Relative_init p orig = Inr ?r"
    by (simp add: Relative_init_def eq frame_connect_def)
  have ev_r: "\<exists>ev. event_at_time fr ?r t = Inr ev \<and> time ev = t \<and>
      e_frame_id ev = frame_id orig \<and> e_origin_id ev = path_id orig \<and>
      pos ev = rotate_vec fr (Frame (frame_id orig) ''J2000'') t
        (fst (separation place (path_id p) (path_id orig) t)) \<and>
      vel ev = rotate_vel fr (Frame (frame_id orig) ''J2000'') t
        (fst (separation place (path_id p) (path_id orig) t))
        (snd (separation place (path_id p) (path_id orig) t))" for t
  proof -
    from sp obtain ev where ev: "event_at_time fr p t = Inr ev" "time ev = t"
      "e_frame_id ev = frame_id p"
      "pos ev = rotate_vec fr (Frame (frame_id p) ''J2000'') t
                 (fst (separation place (path_id p) (origin_id p) t))"
      "vel ev = rotate_vel fr (Frame (frame_id p) ''J2000'') t
                 (fst (separation place (path_id p) (origin_id p) t))
                 (snd (separation place (path_id p) (origin_id p) t))"
      by (rule soundD)
    from so obtain eo where eo: "event_at_time fr orig t = Inr eo" "time eo = t"
      "e_frame_id eo = frame_id orig"
      "pos eo = rotate_vec fr (Frame (frame_id orig) ''J2000'') t
                 (fst (separation place (path_id orig) (origin_id orig) t))"
      "vel eo = rotate_vel fr (Frame (frame_id orig) ''J2000'') t
                 (fst (separation place (path_id orig) (origin_id orig) t))
                 (snd (separation place (path_id orig) (origin_id orig) t))"
      by (rule soundD)
    have oid: "e_origin_id ev = origin_id orig"
      using origin_okD [OF op ev(1)] eq by simp
    show ?thesis
      using ev eo oid eq
      by (simp add: unrotate_by_frame_def Event_def unrotate_is_rotate [OF c]
            rotate_compose [OF c] rotate_vel_compose [OF c]
            rotate_vsub [OF c, symmetric] rotate_vel_vsub [OF c, symmetric] separation_diff)
  qed
  have "sound fr place ?r"
  proof (rule soundI)
    fix t
    from ev_r [of t] show "\<exists>ev. event_at_time fr ?r t = Inr ev \<and> time ev = t \<and>
      e_frame_id ev = frame_id ?r \<and>
      pos ev = rotate_vec fr (Frame (frame_id ?r) ''J2000'') t
        (fst (separation place (path_id ?r) (origin_id ?r) t)) \<and>
      vel ev = rotate_vel fr (Frame (frame_id ?r) ''J2000'') t
        (fst (separation place (path_id ?r) (origin_id ?r) t))
        (snd (separation place (path_id ?r) (origin_id ?r) t))"
      by (simp only: path.sel) blast
  qed
  moreover have "origin_ok fr ?r"
    unfolding origin_ok_def
  proof (intro allI impI)
    fix t ev assume a: "event_at_time fr ?r t = Inr ev"
    from ev_r [of t] a show "e_origin_id ev = origin_id ?r" by (simp only: path.sel) auto
  qed
  ultimately show ?thesis using init by simp
qed

lemma Linked_loop_sound:
  assumes c: "coherent fr"
  shows "\<lbrakk>\<forall>p\<in>set ps. sound fr place p \<and> origin_ok fr p; chained (q # ps);
      time ev = t; e_origin_id ev = origin_id q; e_frame_id ev = frame_id q;
      pos ev = rotate_vec fr (Frame (frame_id q) ''J2000'') t
                 (fst (separation place x (origin_id q) t));
      vel ev = rotate_vel fr (Frame (frame_id q) ''J2000'') t
                 (fst (separation place x (origin_id q) t))
                 (snd (separation place x (origin_id q) t))\<rbrakk>
    \<Longrightarrow> \<exists>ev'. Linked_loop fr ps (link_frames (q # ps)) ev = Inr ev' \<and> time ev' = t \<and>
          e_origin_id ev' = origin_id (last (q # ps)) \<and>
          e_frame_id ev' = frame_id (last (q # ps)) \<and>
          pos ev' = rotate_vec fr (Frame (frame_id (last (q # ps))) ''J2000'') t
                 (fst (separation place x (origin_id (last (q # ps))) t)) \<and>
          vel ev' = rotate_vel fr (Frame (frame_id (last (q # ps))) ''J2000'') t
                 (fst (separation place x (origin_id (last (q # ps))) t))
                 (snd (separation place x (origin_id (last (q # ps))) t))"
proof (induction ps arbitrary: q ev)
  case Nil
  then show ?case by simp
next
  case (Cons p ps)
  have sp: "sound fr place p" and op: "origin_ok fr p" using Cons.prems(1) by simp_all
  have link: "origin_id q = path_id p" and ch: "chained (p # ps)" using Cons.prems(2) by simp_all
  from sp obtain ep where ep: "event_at_time fr p t = Inr ep" "time ep = t"
    "e_frame_id ep = frame_id p"
    "pos ep = rotate_vec fr (Frame (frame_id p) ''J2000'') t
               (fst (separation place (path_id p) (origin_id p) t))"
    "vel ep = rotate_vel fr (Frame (frame_id p) ''J2000'') t
               (fst (separation place (path_id p) (origin_id p) t))
               (snd (separation place (path_id p) (origin_id p) t))"
    by (rule soundD)
  define ev1 where "ev1 = Event t
      (rotate_vec fr (Frame (frame_id p) ''J2000'') t (fst (separation place x (origin_id p) t)))
      (rotate_vel fr (Frame (frame_id p) ''J2000'') t (fst (separation place x (origin_id p) t))
         (snd (separation place x (origin_id p) t)))
      (origin_id p) (frame_id p) (perp (unrotate_by_frame fr (Frame (frame_id q) (frame_id p)) ev))
      (arr (unrotate_by_frame fr (Frame (frame_id q) (frame_id p)) ev))
      (dep (unrotate_by_frame fr (Frame (frame_id q) (frame_id p)) ev))
      (vflat (unrotate_by_frame fr (Frame (frame_id q) (frame_id p)) ev))"
  have add: "add_to_event fr p (unrotate_by_frame fr (Frame (frame_id q) (frame_id p)) ev) = Inr ev1"
    using Cons.prems(3-7) ep link
    by (simp add: ev1_def unrotate_by_frame_def Event_def unrotate_is_rotate [OF c]
          rotate_compose [OF c] rotate_vel_compose [OF c]
          rotate_vadd [OF c, symmetric] rotate_vel_vadd [OF c, symmetric] separation_chain)
  have "\<exists>ev'. Linked_loop fr ps (link_frames (p # ps)) ev1 = Inr ev' \<and> time ev' = t \<and>
          e_origin_id ev' = origin_id (last (p # ps)) \<and>
          e_frame_id ev' = frame_id (last (p # ps)) \<and>
          pos ev' = rotate_vec fr (Frame (frame_id (last (p # ps))) ''J2000'') t
                 (fst (separation place x (origin_id (last (p # ps))) t)) \<and>
          vel ev' = rotate_vel fr (Frame (frame_id (last (p # ps))) ''J2000'') t
                 (fst (separation place x (origin_id (last (p # ps))) t))
                 (snd (separation place x (origin_id (last (p # ps))) t))"
    by (rule Cons.IH) (use Cons.prems(1) ch in \<open>simp_all add: ev1_def Event_def\<close>)
  then show ?case using add by (simp add: frame_connect_def)
qed

lemma sound_Linked:
  assumes c: "coherent fr" and ne: "ps \<noteq> []"
    and all: "\<forall>p\<in>set ps. sound fr place p \<and> origin_ok fr p" and ch: "chained ps"
  shows "\<exists>l. Linked_init ps = Inr l \<and> sound fr place l \<and> origin_ok fr l \<and>
           path_id l = path_id (hd ps) \<and> origin_id l = origin_id (last ps) \<and>
           frame_id l = frame_id (last ps)"
proof -
  from ne obtain q rest where ps: "ps = q # rest" by (cases ps) auto
  let ?l = "Linked (path_id q) (origin_id (last ps)) (frame_id (last ps)) ps (link_frames ps)"
  have init: "Linked_init ps = Inr ?l" by (simp add: Linked_init_def ps)
  have sq: "sound fr place q" and oq: "origin_ok fr q" using all ps by simp_all
  have ev_l: "\<exists>ev. event_at_time fr ?l t = Inr ev \<and> time ev = t \<and>
      e_origin_id ev = origin_id (last ps) \<and> e_frame_id ev = frame_id (last ps) \<and>
      pos ev = rotate_vec fr (Frame (frame_id (last ps)) ''J2000'') t
        (fst (separation place (path_id q) (origin_id (last ps)) t)) \<and>
      vel ev = rotate_vel fr (Frame (frame_id (last ps)) ''J2000'') t
        (fst (separation place (path_id q) (origin_id (last ps)) t))
        (snd (separation place (path_id q) (origin_id (last ps)) t))" for t
  proof -
    from sq obtain ev where ev: "event_at_time fr q t = Inr ev" "time ev = t"
      "e_frame_id ev = frame_id q"
      "pos ev = rotate_vec fr (Frame (frame_id q) ''J2000'') t
                 (fst (separation place (path_id q) (origin_id q) t))"
      "vel ev = rotate_vel fr (Frame (frame_id q) ''J2000'') t
                 (fst (separation place (path_id q) (origin_id q) t))
                 (snd (separation place (path_id q) (origin_id q) t))"
      by (rule soundD)
    have oid: "e_origin_id ev = origin_id q" by (rule origin_okD [OF oq ev(1)])
    have "\<exists>ev'. Linked_loop fr rest (link_frames (q # rest)) ev = Inr ev' \<and> time ev' = t \<and>
          e_origin_id ev' = origin_id (last (q # rest)) \<and>
          e_frame_id ev' = frame_id (last (q # rest)) \<and>
          pos ev' = rotate_vec fr (Frame (frame_id (last (q # rest))) ''J2000'') t
                 (fst (separation place (path_id q) (origin_id (last (q # rest))) t)) \<and>
          vel ev' = rotate_vel fr (Frame (frame_id (last (q # rest))) ''J2000'') t
                 (fst (separation place (path_id q) (origin_id (last (q # rest))) t))
                 (snd (separation place (path_id q) (origin_id (last (q # rest))) t))"
      by (rule Linked_loop_sound [OF c]) (use all ch ps ev oid in simp_all)
    then show ?thesis using ev(1) by (simp only: ps event_at_time.simps) auto
  qed
  have "sound fr place ?l"
  proof (rule soundI)
    fix t
    from ev_l [of t] show "\<exists>ev. event_at_time fr ?l t = Inr ev \<and> time ev = t \<and>
      e_frame_id ev = frame_id ?l \<and>
      pos ev = rotate_vec fr (Frame (frame_id ?l) ''J2000'') t
        (fst (separation place (path_id ?l) (origin_id ?l) t)) \<and>
      vel ev = rotate_vel fr (Frame (frame_id ?l) ''J2000'') t
        (fst (separation place (path_id ?l) (origin_id ?l) t))
        (snd (separation place (path_id ?l) (origin_id ?l) t))"
      by (simp only: path.sel) blast
  qed
  moreover have "origin_ok fr ?l"
    unfolding origin_ok_def
  proof (intro allI impI)
    fix t ev assume a: "event_at_time fr ?l t = Inr ev"
    from ev_l [of t] a show "e_origin_id ev = origin_id ?l" by (simp only: path.sel) auto
  qed
  ultimately show ?thesis using init by (simp add: ps)
qed

section \<open>Ancestries in a well-formed registry\<close>

lemma registry_ok_entry:
  "registry_ok fr place reg \<Longrightarrow> map_of reg k = Some obj \<Longrightarrow> entry_ok fr place reg k obj"
  unfolding registry_ok_def by (auto dest: map_of_SomeD)

lemma has_key_lookup: "has_key reg k \<Longrightarrow> \<exists>obj. map_of reg k = Some obj \<and> lookup reg k = Inr obj"
  by (auto simp: has_key_def lookup_def)

lemma lookup_Some: "map_of reg k = Some obj \<Longrightarrow> lookup reg k = Inr obj"
  by (simp add: lookup_def)

lemma lookup_cases:
  "(\<exists>obj. map_of reg k = Some obj \<and> lookup reg k = Inr obj) \<or>
   (map_of reg k = None \<and> lookup reg k = Inl KeyError)"
  by (cases "map_of reg k") (simp_all add: lookup_def)

lemma primary_okD:
  assumes "primary_ok fr reg obj"
  obtains q rest where "ancestry obj = Some (q # rest)" "q = the_path obj"
    "origin_ok fr q" "distinct (map path_id (q # rest))"
    "rest = [] \<longrightarrow> path_id q = ''SSB''"
    "rest \<noteq> [] \<longrightarrow> origin_id q = path_id (hd rest) \<and>
       (\<exists>ro. map_of reg (K1 (path_id (hd rest))) = Some ro \<and> ancestry ro = Some rest)"
proof -
  from assms obtain q rest where a: "ancestry obj = Some (q # rest)"
    by (auto simp: primary_ok_def split: option.splits list.splits)
  from assms a have b: "q = the_path obj" "origin_ok fr q" "distinct (map path_id (q # rest))"
    by (auto simp: primary_ok_def)
  from assms a have c: "rest = [] \<longrightarrow> path_id q = ''SSB''"
    by (auto simp: primary_ok_def)
  from assms a have d: "rest \<noteq> [] \<longrightarrow> origin_id q = path_id (hd rest) \<and>
       (\<exists>ro. map_of reg (K1 (path_id (hd rest))) = Some ro \<and> ancestry ro = Some rest)"
    by (cases rest) (auto simp: primary_ok_def split: option.splits)
  from a b c d show thesis by (rule that)
qed

lemma ancestry_ok:
  assumes ok: "registry_ok fr place reg"
  shows "map_of reg (K1 x) = Some obj \<Longrightarrow> ancestry obj = Some anc \<Longrightarrow>
     anc \<noteq> [] \<and> hd anc = the_path obj \<and> path_id (hd anc) = x \<and> chained anc \<and>
     distinct (map path_id anc) \<and> path_id (last anc) = ''SSB'' \<and>
     (\<forall>p\<in>set anc. sound fr place p \<and> origin_ok fr p \<and> has_key reg (K1 (path_id p)))"
proof (induction anc arbitrary: x obj)
  case Nil
  from registry_ok_entry [OF ok Nil(1)] have "primary_ok fr reg obj"
    by (simp add: entry_ok_def)
  then show ?case using Nil(2) by (auto elim: primary_okD)
next
  case (Cons q rest)
  from registry_ok_entry [OF ok Cons.prems(1)] have e: "entry_ok fr place reg (K1 x) obj" .
  then have prim: "primary_ok fr reg obj" and snd: "sound fr place (the_path obj)"
    and idx: "path_id (the_path obj) = x"
    by (simp_all add: entry_ok_def)
  from prim obtain q' rest' where p: "ancestry obj = Some (q' # rest')" "q' = the_path obj"
    "origin_ok fr q'" "distinct (map path_id (q' # rest'))"
    "rest' = [] \<longrightarrow> path_id q' = ''SSB''"
    "rest' \<noteq> [] \<longrightarrow> origin_id q' = path_id (hd rest') \<and>
       (\<exists>ro. map_of reg (K1 (path_id (hd rest'))) = Some ro \<and> ancestry ro = Some rest')"
    by (rule primary_okD)
  from p(1) Cons.prems(2) have eq: "q' = q" "rest' = rest" by simp_all
  have hk: "has_key reg (K1 (path_id q))"
    using Cons.prems(1) idx p(2) eq by (simp add: has_key_def)
  show ?case
  proof (cases rest)
    case Nil
    then show ?thesis using p eq snd idx hk by simp
  next
    case (Cons r rs)
    with p(6) eq obtain ro where ro: "origin_id q = path_id r"
      "map_of reg (K1 (path_id r)) = Some ro" "ancestry ro = Some rest"
      by auto
    from Cons.IH [OF ro(2) ro(3)]
    have ih: "chained rest" "path_id (last rest) = ''SSB''"
      "\<forall>p\<in>set rest. sound fr place p \<and> origin_ok fr p \<and> has_key reg (K1 (path_id p))"
      by blast+
    show ?thesis using ih p(2-4) eq snd idx hk ro(1) Cons by simp
  qed
qed

lemma ancestry_suffix:
  assumes ok: "registry_ok fr place reg"
  shows "map_of reg (K1 x) = Some obj \<Longrightarrow> ancestry obj = Some anc \<Longrightarrow> k < length anc \<Longrightarrow>
     \<exists>obj'. map_of reg (K1 (path_id (anc ! k))) = Some obj' \<and> ancestry obj' = Some (drop k anc)"
proof (induction k arbitrary: x obj anc)
  case 0
  from ancestry_ok [OF ok 0(1) 0(2)] have "path_id (hd anc) = x \<and> anc \<noteq> []" by blast
  then have "path_id (anc ! 0) = x" by (auto simp: hd_conv_nth)
  then show ?case using 0 by simp
next
  case (Suc k)
  from registry_ok_entry [OF ok Suc.prems(1)] have prim: "primary_ok fr reg obj"
    by (simp add: entry_ok_def)
  from prim obtain q rest where p: "ancestry obj = Some (q # rest)"
    "rest \<noteq> [] \<longrightarrow> origin_id q = path_id (hd rest) \<and>
       (\<exists>ro. map_of reg (K1 (path_id (hd rest))) = Some ro \<and> ancestry ro = Some rest)"
    by (rule primary_okD)
  from p(1) Suc.prems(2) have anc: "anc = q # rest" by simp
  with Suc.prems(3) have k: "k < length rest" by simp
  then have "rest \<noteq> []" by auto
  with p(2) obtain ro where ro: "map_of reg (K1 (path_id (hd rest))) = Some ro"
    "ancestry ro = Some rest" by auto
  from Suc.IH [OF ro k] show ?case by (simp add: anc)
qed

lemma find_id_Some: "find_id x ps = Some j \<Longrightarrow> j < length ps \<and> path_id (ps ! j) = x"
proof (induction ps arbitrary: j)
  case Nil
  then show ?case by simp
next
  case (Cons p ps)
  then show ?case by (cases "x = path_id p") auto
qed

lemma find_id_None: "find_id x ps = None \<longleftrightarrow> x \<notin> path_id ` set ps"
  by (induction ps) auto

lemma common_from_found:
  "ps = drop i anc1 \<Longrightarrow> \<exists>p\<in>set ps. path_id p \<in> path_id ` set anc2 \<Longrightarrow>
   \<exists>i' j. common_from i ps anc1 anc2 = (take (Suc i') anc1, take (Suc j) anc2) \<and>
      i' < length anc1 \<and> j < length anc2 \<and> path_id (anc1 ! i') = path_id (anc2 ! j)"
proof (induction ps arbitrary: i)
  case Nil
  then show ?case by simp
next
  case (Cons p ps)
  from Cons.prems(1) have i: "i < length anc1"
    by (cases "i < length anc1") auto
  then have "anc1 ! i # drop (Suc i) anc1 = drop i anc1" by (rule Cons_nth_drop_Suc)
  with Cons.prems(1) have "p = anc1 ! i \<and> ps = drop (Suc i) anc1" by (metis list.inject)
  then have p: "p = anc1 ! i" and rest: "ps = drop (Suc i) anc1" by blast+
  show ?case
  proof (cases "find_id (path_id p) anc2")
    case None
    then have "path_id p \<notin> path_id ` set anc2" by (simp add: find_id_None)
    with Cons.prems(2) have "\<exists>p\<in>set ps. path_id p \<in> path_id ` set anc2" by auto
    from Cons.IH [OF rest this] None show ?thesis by simp
  next
    case (Some j)
    from find_id_Some [OF Some] have j: "j < length anc2" "path_id (anc1 ! i) = path_id (anc2 ! j)"
      using p by simp_all
    have "common_from i (p # ps) anc1 anc2 = (take (Suc i) anc1, take (Suc j) anc2)"
      using Some by simp
    with i j show ?thesis by blast
  qed
qed

lemma chained_nth: "chained l \<Longrightarrow> Suc k < length l \<Longrightarrow> origin_id (l ! k) = path_id (l ! Suc k)"
proof (induction l arbitrary: k rule: chained.induct)
  case (1 p q ps)
  then show ?case by (cases k) simp_all
qed simp_all

lemma chained_take: "chained l \<Longrightarrow> chained (take n l)"
proof (induction n arbitrary: l)
  case 0
  then show ?case by simp
next
  case (Suc n)
  show ?case
  proof (cases l)
    case Nil
    then show ?thesis by simp
  next
    case l: (Cons p l')
    show ?thesis
    proof (cases l')
      case Nil
      then show ?thesis using l by simp
    next
      case l': (Cons q l'')
      from Suc.prems l l' have link: "origin_id p = path_id q" and ch: "chained (q # l'')"
        by simp_all
      show ?thesis
      proof (cases n)
        case 0
        then show ?thesis using l by simp
      next
        case n: (Suc m)
        from Suc.IH [OF ch] n have "chained (q # take m l'')" by simp
        then show ?thesis using l l' n link by simp
      qed
    qed
  qed
qed

section \<open>Secondary registrations keep a registry well formed\<close>

lemma grows_refl: "grows reg reg"
  by (simp add: grows_def)

lemma grows_trans: "grows r1 r2 \<Longrightarrow> grows r2 r3 \<Longrightarrow> grows r1 r3"
  unfolding grows_def by simp

lemma grows_map_of: "grows reg reg' \<Longrightarrow> map_of reg k = Some obj \<Longrightarrow> map_of reg' k = Some obj"
  unfolding grows_def by blast

lemma grows_K1: "grows reg reg' \<Longrightarrow> map_of reg' (K1 x) = map_of reg (K1 x)"
  unfolding grows_def by blast

lemma grows_has_key: "grows reg reg' \<Longrightarrow> has_key reg k \<Longrightarrow> has_key reg' k"
  unfolding grows_def has_key_def by auto

lemma grows_ancestor_ids: "grows reg reg' \<Longrightarrow> ancestor_ids reg' x = ancestor_ids reg x"
  by (simp add: ancestor_ids_def grows_K1)

lemma grows_primary_ok:
  assumes "grows reg reg'"
  shows "primary_ok fr reg' obj = primary_ok fr reg obj"
  unfolding primary_ok_def grows_K1 [OF assms] by (rule refl)

lemma grows_entry_ok:
  assumes g: "grows reg reg'" and e: "entry_ok fr place reg k obj"
  shows "entry_ok fr place reg' k obj"
  using e grows_has_key [OF g]
  unfolding entry_ok_def grows_primary_ok [OF g] grows_ancestor_ids [OF g]
  by auto

lemma registry_ok_iff:
  "registry_ok fr place reg \<longleftrightarrow>
     reg \<noteq> [] \<and> distinct (map fst reg) \<and>
     (\<forall>k obj. map_of reg k = Some obj \<longrightarrow> entry_ok fr place reg k obj)"
  unfolding registry_ok_def by (auto dest: map_of_SomeD)

lemma setitem_new:
  assumes ok: "registry_ok fr place reg" and new: "\<not> has_key reg k"
    and sec: "\<not> is_primary_key k" and e: "entry_ok fr place reg k obj"
  shows "registry_ok fr place (setitem reg k obj) \<and> grows reg (setitem reg k obj)"
proof -
  have none: "map_of reg k = None" using new by (simp add: has_key_def)
  have m: "map_of (setitem reg k obj) = (map_of reg)(k \<mapsto> obj)"
    by (simp add: setitem_def update_conv')
  have g: "grows reg (setitem reg k obj)"
    unfolding grows_def m using none sec by (cases k) auto
  have d: "distinct (map fst (setitem reg k obj))"
    using ok by (simp add: setitem_def registry_ok_def distinct_update)
  have ne: "setitem reg k obj \<noteq> []" by (simp add: setitem_def)
  have "entry_ok fr place (setitem reg k obj) k' obj'"
    if "map_of (setitem reg k obj) k' = Some obj'" for k' obj'
  proof (cases "k' = k")
    case True
    with that m have "obj' = obj" by simp
    with True grows_entry_ok [OF g e] show ?thesis by simp
  next
    case False
    with that m have "map_of reg k' = Some obj'" by simp
    from grows_entry_ok [OF g registry_ok_entry [OF ok this]] show ?thesis .
  qed
  with d ne g show ?thesis by (simp add: registry_ok_iff)
qed

lemma entry_ok_K3:
  "entry_ok fr place reg (K2 (path_id (the_path self)) (origin_id (the_path self))) self \<Longrightarrow>
   entry_ok fr place reg
     (K3 (path_id (the_path self)) (origin_id (the_path self)) (frame_id (the_path self))) self"
  by (simp add: entry_ok_def)

lemma secondary_entries_ok:
  assumes ok: "registry_ok fr place reg"
    and e: "entry_ok fr place reg (K2 (path_id (the_path self)) (origin_id (the_path self))) self"
  shows "registry_ok fr place (secondary_entries self reg) \<and> grows reg (secondary_entries self reg)"
proof -
  let ?k2 = "K2 (path_id (the_path self)) (origin_id (the_path self))"
  let ?k3 = "K3 (path_id (the_path self)) (origin_id (the_path self)) (frame_id (the_path self))"
  define reg8 where "reg8 = (if has_key reg ?k2 then reg else setitem reg ?k2 self)"
  have r8: "registry_ok fr place reg8 \<and> grows reg reg8"
  proof (cases "has_key reg ?k2")
    case True
    then show ?thesis using ok by (simp add: reg8_def grows_refl)
  next
    case False
    from setitem_new [OF ok False _ e] show ?thesis using False by (simp add: reg8_def)
  qed
  have e8: "entry_ok fr place reg8 ?k3 self"
    using r8 e by (blast intro: grows_entry_ok entry_ok_K3)
  have sec: "secondary_entries self reg = (if has_key reg8 ?k3 then reg8 else setitem reg8 ?k3 self)"
    by (simp add: secondary_entries_def reg8_def Let_def)
  show ?thesis
  proof (cases "has_key reg8 ?k3")
    case True
    then show ?thesis using r8 sec by simp
  next
    case False
    from r8 have ok8: "registry_ok fr place reg8" by blast
    from setitem_new [OF ok8 False _ e8]
    have "registry_ok fr place (setitem reg8 ?k3 self) \<and> grows reg8 (setitem reg8 ?k3 self)"
      by simp
    with r8 False sec show ?thesis by (auto intro: grows_trans)
  qed
qed

lemma register_secondary:
  assumes "reg \<noteq> []" "has_key reg (K1 (origin_id (the_path self)))"
    "has_key reg (K1 (path_id (the_path self)))"
  shows "register (Suc n) self None reg = (Inr self, secondary_entries self reg)"
proof -
  from assms(2) obtain origin where "lookup reg (K1 (origin_id (the_path self))) = Inr origin"
    by (auto dest: has_key_lookup)
  then show ?thesis using assms(1,3) by (simp add: register_body_def)
qed

lemma register_entry:
  assumes ok: "registry_ok fr place reg"
    and e: "entry_ok fr place reg (K2 (path_id (the_path self)) (origin_id (the_path self))) self"
  shows "\<exists>reg'. register (Suc n) self None reg = (Inr self, reg') \<and>
           registry_ok fr place reg' \<and> grows reg reg'"
proof -
  from e have hk: "has_key reg (K1 (origin_id (the_path self)))"
    "has_key reg (K1 (path_id (the_path self)))" by (simp_all add: entry_ok_def)
  from ok have ne: "reg \<noteq> []" by (simp add: registry_ok_def)
  from ne hk have "register (Suc n) self None reg = (Inr self, secondary_entries self reg)"
    by (rule register_secondary)
  with secondary_entries_ok [OF ok e] show ?thesis by simp
qed

section \<open>The paths that the connector looks up or links\<close>

lemma prefix_facts:
  assumes ok: "registry_ok fr place reg" and m: "map_of reg (K1 x) = Some obj"
    and a: "ancestry obj = Some anc" and i: "i < length anc"
  shows "(\<forall>p\<in>set (take i anc). sound fr place p \<and> origin_ok fr p) \<and> chained (take i anc) \<and>
     (take i anc \<noteq> [] \<longrightarrow> hd (take i anc) = the_path obj \<and>
        origin_id (last (take i anc)) = path_id (anc ! i)) \<and>
     (take i anc = [] \<longrightarrow> path_id (anc ! i) = x) \<and>
     has_key reg (K1 (path_id (anc ! i))) \<and>
     path_id (anc ! i) \<in> set (ancestor_ids reg x) \<and>
     has_key reg (K1 x) \<and> path_id (the_path obj) = x"
proof -
  from ancestry_ok [OF ok m a]
  have ne: "anc \<noteq> []" and hd: "hd anc = the_path obj" and idx: "path_id (hd anc) = x"
    and ch: "chained anc"
    and all: "\<forall>p\<in>set anc. sound fr place p \<and> origin_ok fr p \<and> has_key reg (K1 (path_id p))"
    by blast+
  have 1: "\<forall>p\<in>set (take i anc). sound fr place p \<and> origin_ok fr p"
    using all by (auto dest: in_set_takeD)
  have 2: "chained (take i anc)" using ch by (rule chained_take)
  have 3: "hd (take i anc) = the_path obj \<and> origin_id (last (take i anc)) = path_id (anc ! i)"
    if "take i anc \<noteq> []"
  proof -
    from that have pos: "0 < i" by (cases i) simp_all
    then have h: "hd (take i anc) = hd anc" by (cases anc; cases i) simp_all
    from pos i that have l: "last (take i anc) = anc ! (i - 1)"
      by (simp add: last_conv_nth min_def)
    from pos i have "origin_id (anc ! (i - 1)) = path_id (anc ! Suc (i - 1))"
      by (intro chained_nth [OF ch]) simp
    with pos have "origin_id (anc ! (i - 1)) = path_id (anc ! i)" by simp
    with h l hd show ?thesis by simp
  qed
  have 4: "path_id (anc ! i) = x" if "take i anc = []"
  proof -
    from that ne have "i = 0" by (cases i; cases anc) simp_all
    with idx ne show ?thesis by (simp add: hd_conv_nth)
  qed
  have mem: "anc ! i \<in> set anc" using i by simp
  with all have 5: "has_key reg (K1 (path_id (anc ! i)))" by blast
  have 6: "path_id (anc ! i) \<in> set (ancestor_ids reg x)"
    using mem by (simp add: ancestor_ids_def m a)
  have 7: "has_key reg (K1 x)" using m by (simp add: has_key_def)
  have 8: "path_id (the_path obj) = x" using hd idx by simp
  from 1 2 3 4 5 6 7 8 show ?thesis by blast
qed

lemma lookup_or_link_ok:
  assumes c: "coherent fr" and ok: "registry_ok fr place reg"
    and all: "\<forall>p\<in>set anc. sound fr place p \<and> origin_ok fr p"
    and ch: "chained anc"
    and hd: "anc \<noteq> [] \<longrightarrow> hd anc = the_path prim \<and> origin_id (last anc) = cid"
    and hkx: "has_key reg (K1 (path_id (the_path prim)))"
    and hkc: "has_key reg (K1 cid)"
    and cin: "cid \<in> set (ancestor_ids reg (path_id (the_path prim)))"
  shows "\<exists>r reg'. lookup_or_link (register (Suc n)) prim anc reg = (Inr r, reg') \<and>
     registry_ok fr place reg' \<and> grows reg reg' \<and> (anc = [] \<longrightarrow> r = None) \<and>
     (anc \<noteq> [] \<longrightarrow> (\<exists>q. r = Some q \<and> sound fr place (the_path q) \<and> origin_ok fr (the_path q) \<and>
        path_id (the_path q) = path_id (the_path prim) \<and> origin_id (the_path q) = cid))"
proof (cases "anc = []")
  case True
  then show ?thesis using ok by (simp add: lookup_or_link_def grows_refl)
next
  case ne: False
  with hd have h: "hd anc = the_path prim" and l: "origin_id (last anc) = cid" by simp_all
  from ne have "hd anc \<in> set anc" by simp
  with all h have sp: "sound fr place (the_path prim)" "origin_ok fr (the_path prim)" by auto
  show ?thesis
  proof (cases "length anc = 1")
    case True
    then have "anc = [hd anc]" by (cases anc) simp_all
    then have "last anc = hd anc" by (metis last.simps)
    with l h have "origin_id (the_path prim) = cid" by simp
    then show ?thesis using ok ne True sp by (simp add: lookup_or_link_def grows_refl)
  next
    case long: False
    let ?k = "K2 (path_id (the_path prim)) cid"
    from lookup_cases [of reg ?k] show ?thesis
    proof (elim disjE exE conjE)
      fix found assume f: "map_of reg ?k = Some found" "lookup reg ?k = Inr found"
      from registry_ok_entry [OF ok f(1)] have e: "entry_ok fr place reg ?k found" .
      then have ids: "path_id (the_path found) = path_id (the_path prim)"
        "origin_id (the_path found) = cid" and s: "sound fr place (the_path found)"
        by (simp_all add: entry_ok_def)
      from e ids cin have o: "origin_ok fr (the_path found)" by (auto simp: entry_ok_def)
      have "lookup_or_link (register (Suc n)) prim anc reg = (Inr (Some found), reg)"
        using ne long f(2) l by (simp add: lookup_or_link_def)
      then show ?thesis using ok ne ids s o by (simp add: grows_refl)
    next
      assume f: "map_of reg ?k = None" "lookup reg ?k = Inl KeyError"
      from sound_Linked [OF c ne all ch] obtain lk where lk: "Linked_init anc = Inr lk"
        "sound fr place lk" "origin_ok fr lk" "path_id lk = path_id (hd anc)"
        "origin_id lk = origin_id (last anc)" by blast
      have e: "entry_ok fr place reg
          (K2 (path_id (the_path (PObj lk None))) (origin_id (the_path (PObj lk None))))
          (PObj lk None)"
        using lk h l hkx hkc by (simp add: entry_ok_def)
      from register_entry [OF ok e] obtain reg' where
        r: "register (Suc n) (PObj lk None) None reg = (Inr (PObj lk None), reg')"
        "registry_ok fr place reg'" "grows reg reg'" by blast
      have "lookup_or_link (register (Suc n)) prim anc reg = (Inr (Some (PObj lk None)), reg')"
        using ne long f(2) l lk(1) r(1) by (simp add: lookup_or_link_def)
      then show ?thesis using r(2,3) ne lk h l by simp
    qed
  qed
qed

lemma not_own_descendant:
  assumes ok: "registry_ok fr place reg"
    and mx: "map_of reg (K1 x) = Some tx" and ax: "ancestry tx = Some anc1"
    and mo: "map_of reg (K1 y) = Some ty" and ao: "ancestry ty = Some anc2"
    and j: "0 < j" "j < length anc2" "path_id (anc2 ! j) = x"
  shows "y \<notin> set (ancestor_ids reg x)"
proof
  assume "y \<in> set (ancestor_ids reg x)"
  then have "y \<in> set (map path_id anc1)" by (simp add: ancestor_ids_def mx ax)
  then obtain k where k: "k < length anc1" "path_id (anc1 ! k) = y"
    by (auto simp: in_set_conv_nth)
  from ancestry_suffix [OF ok mx ax k(1)] k(2) mo ao have anc2: "anc2 = drop k anc1" by simp
  with j(2) have kj: "k + j < length anc1" by simp
  from anc2 j(3) kj have "path_id (anc1 ! (k + j)) = x" by simp
  moreover from ancestry_ok [OF ok mx ax] have "path_id (hd anc1) = x \<and> anc1 \<noteq> []"
    and d: "distinct (map path_id anc1)" by blast+
  then have "path_id (anc1 ! 0) = x" and z: "0 < length anc1" by (auto simp: hd_conv_nth)
  ultimately have "map path_id anc1 ! (k + j) = map path_id anc1 ! 0" using kj by simp
  moreover have "k + j < length (map path_id anc1)" "0 < length (map path_id anc1)"
    using kj z by simp_all
  ultimately have "k + j = 0" using d by (simp only: nth_eq_iff_index_eq)
  with j(1) show False by simp
qed

lemma entry_okI:
  assumes "sound fr place (the_path obj)" "has_key reg (K1 (path_id (the_path obj)))"
    "has_key reg (K1 (origin_id (the_path obj)))"
    "origin_ok fr (the_path obj) \<or>
     origin_id (the_path obj) \<notin> set (ancestor_ids reg (path_id (the_path obj)))"
  shows "entry_ok fr place reg (K2 (path_id (the_path obj)) (origin_id (the_path obj))) obj"
  using assms by (simp add: entry_ok_def)

lemma entry_ok_secondary:
  assumes "entry_ok fr place reg k obj"
  shows "entry_ok fr place reg (K2 (path_id (the_path obj)) (origin_id (the_path obj))) obj"
proof (cases "is_primary_key k")
  case True
  with assms have "primary_ok fr reg obj" by (simp add: entry_ok_def)
  then have "origin_ok fr (the_path obj)" by (simp add: primary_ok_def)
  with assms show ?thesis by (simp add: entry_ok_def)
next
  case False
  with assms show ?thesis by (simp add: entry_ok_def)
qed

lemma rotated_entry:
  assumes c: "coherent fr"
    and e: "entry_ok fr place reg (K2 (path_id (the_path s)) (origin_id (the_path s))) s"
  shows "entry_ok fr place reg
     (K2 (path_id (the_path (PObj (Rotated_init (the_path s) f) None)))
         (origin_id (the_path (PObj (Rotated_init (the_path s) f) None))))
     (PObj (Rotated_init (the_path s) f) None)"
proof (rule entry_okI)
  from e have s: "sound fr place (the_path s)" by (simp add: entry_ok_def)
  show "sound fr place (the_path (PObj (Rotated_init (the_path s) f) None))"
    using sound_Rotated [OF c s] by simp
  show "has_key reg (K1 (path_id (the_path (PObj (Rotated_init (the_path s) f) None))))"
    using e by (simp add: entry_ok_def Rotated_ids)
  show "has_key reg (K1 (origin_id (the_path (PObj (Rotated_init (the_path s) f) None))))"
    using e by (simp add: entry_ok_def Rotated_ids)
  show "origin_ok fr (the_path (PObj (Rotated_init (the_path s) f) None)) \<or>
     origin_id (the_path (PObj (Rotated_init (the_path s) f) None))
       \<notin> set (ancestor_ids reg (path_id (the_path (PObj (Rotated_init (the_path s) f) None))))"
    using e by (auto simp: entry_ok_def Rotated_ids intro: origin_ok_Rotated)
qed

lemma register_rotated_ok:
  assumes c: "coherent fr" and ok: "registry_ok fr place reg"
    and e: "entry_ok fr place reg (K2 (path_id (the_path res)) (origin_id (the_path res))) res"
  shows "\<exists>r reg'. register_rotated (register (Suc n)) f (Inr res, reg) = (Inr r, reg') \<and>
     registry_ok fr place reg' \<and> grows reg reg' \<and> sound fr place (the_path r) \<and>
     path_id (the_path r) = path_id (the_path res) \<and>
     origin_id (the_path r) = origin_id (the_path res) \<and> frame_id (the_path r) = f"
proof (cases "frame_id (the_path res) = f")
  case True
  from e have "sound fr place (the_path res)" by (simp add: entry_ok_def)
  then show ?thesis using True ok by (simp add: register_rotated_def grows_refl)
next
  case False
  let ?rot = "PObj (Rotated_init (the_path res) f) None"
  from register_entry [OF ok rotated_entry [OF c e]] obtain reg' where
    r: "register (Suc n) ?rot None reg = (Inr ?rot, reg')" "registry_ok fr place reg'"
      "grows reg reg'" by blast
  from e have "sound fr place (the_path res)" by (simp add: entry_ok_def)
  then have "sound fr place (the_path ?rot)" using sound_Rotated [OF c] by simp
  moreover have "register_rotated (register (Suc n)) f (Inr res, reg) = (Inr ?rot, reg')"
    using False r(1) by (simp add: register_rotated_def)
  ultimately show ?thesis using r(2,3) by (simp add: Rotated_ids)
qed

lemma primary_ancestry:
  assumes ok: "registry_ok fr place reg" and m: "map_of reg (K1 x) = Some obj"
  shows "\<exists>anc. ancestry obj = Some anc"
proof -
  from registry_ok_entry [OF ok m] have "primary_ok fr reg obj" by (simp add: entry_ok_def)
  then show ?thesis by (auto elim: primary_okD)
qed

lemma common_ancestry_ok:
  assumes ok: "registry_ok fr place reg"
    and mx: "map_of reg (K1 x) = Some tx" and ax: "ancestry tx = Some anc1"
    and my: "map_of reg (K1 y) = Some ty" and ay: "ancestry ty = Some anc2"
  shows "\<exists>i j. common_ancestry tx ty = Inr (take (Suc i) anc1, take (Suc j) anc2) \<and>
     i < length anc1 \<and> j < length anc2 \<and> path_id (anc1 ! i) = path_id (anc2 ! j) \<and>
     butlast (take (Suc i) anc1) = take i anc1 \<and> butlast (take (Suc j) anc2) = take j anc2"
proof -
  from ancestry_ok [OF ok mx ax] have 1: "anc1 \<noteq> []" "path_id (last anc1) = ''SSB''" by blast+
  from ancestry_ok [OF ok my ay] have 2: "anc2 \<noteq> []" "path_id (last anc2) = ''SSB''" by blast+
  from 1 2 have "last anc1 \<in> set anc1" "path_id (last anc1) \<in> path_id ` set anc2"
    by (simp_all add: rev_image_eqI [of "last anc2"])
  then have "\<exists>p\<in>set anc1. path_id p \<in> path_id ` set anc2" by blast
  from common_from_found [of anc1 0 anc1 anc2, OF _ this] obtain i j where
    cf: "common_from 0 anc1 anc1 anc2 = (take (Suc i) anc1, take (Suc j) anc2)"
      "i < length anc1" "j < length anc2" "path_id (anc1 ! i) = path_id (anc2 ! j)"
    by auto
  have bl: "butlast (take (Suc i) anc1) = take i anc1" "butlast (take (Suc j) anc2) = take j anc2"
    using cf(2,3) by (simp_all add: butlast_take)
  have "common_ancestry tx ty = Inr (take (Suc i) anc1, take (Suc j) anc2)"
    using cf(1) by (simp add: common_ancestry_def ax ay)
  with bl cf(2-4) show ?thesis by blast
qed

lemma relative_result_ok:
  assumes c: "coherent fr" and ok: "registry_ok fr place reg"
    and mx: "map_of reg (K1 x) = Some tx" and ax: "ancestry tx = Some anc1"
    and my: "map_of reg (K1 y) = Some ty" and ay: "ancestry ty = Some anc2"
    and i: "i < length anc1" and j: "j < length anc2"
    and cid: "path_id (anc1 ! i) = cid" "path_id (anc2 ! j) = cid"
    and tn: "take i anc1 = [] \<longrightarrow> tp = None"
    and ts: "take i anc1 \<noteq> [] \<longrightarrow> (\<exists>q. tp = Some q \<and> sound fr place (the_path q) \<and>
        origin_ok fr (the_path q) \<and> path_id (the_path q) = x \<and> origin_id (the_path q) = cid)"
    and on: "take j anc2 = [] \<longrightarrow> op = None"
    and os: "take j anc2 \<noteq> [] \<longrightarrow> (\<exists>q. op = Some q \<and> sound fr place (the_path q) \<and>
        origin_ok fr (the_path q) \<and> path_id (the_path q) = y \<and> origin_id (the_path q) = cid)"
  shows "\<exists>res. relative_result tx f tp op = Inr res \<and> path_id (the_path res) = x \<and>
     origin_id (the_path res) = y \<and>
     entry_ok fr place reg (K2 (path_id (the_path res)) (origin_id (the_path res))) res"
proof -
  from prefix_facts [OF ok mx ax i] cid(1)
  have px: "take i anc1 = [] \<longrightarrow> cid = x" "has_key reg (K1 x)" "path_id (the_path tx) = x"
    by auto
  from prefix_facts [OF ok my ay j] cid(2)
  have py: "take j anc2 = [] \<longrightarrow> cid = y" "has_key reg (K1 y)" by auto
  show ?thesis
  proof (cases "take i anc1 = []")
    case tnil: True
    with tn px have tp: "tp = None" and cx: "cid = x" by simp_all
    show ?thesis
    proof (cases "take j anc2 = []")
      case True
      with on py have op: "op = None" and cy: "cid = y" by simp_all
      let ?w = "PObj (Waypoint_init x f) None"
      have r: "relative_result tx f tp op = Inr ?w"
        by (simp add: relative_result_def tp op px(3))
      have ids: "path_id (the_path ?w) = x" "origin_id (the_path ?w) = y"
        using cx cy by (simp_all add: Waypoint_init_def)
      have "entry_ok fr place reg (K2 (path_id (the_path ?w)) (origin_id (the_path ?w))) ?w"
        by (rule entry_okI)
           (use px(2) py(2) ids sound_Waypoint [OF c] origin_ok_Waypoint in simp_all)
      with r ids show ?thesis by blast
    next
      case False
      with os obtain q where q: "op = Some q" "sound fr place (the_path q)"
        "path_id (the_path q) = y" "origin_id (the_path q) = cid" by blast
      let ?v = "PObj (Reversed_init (the_path q)) None"
      have r: "relative_result tx f tp op = Inr ?v"
        by (simp add: relative_result_def tp q(1))
      have ids: "path_id (the_path ?v) = x" "origin_id (the_path ?v) = y"
        using q cx by (simp_all add: Reversed_ids)
      from False have jpos: "0 < j" by (cases j) simp_all
      from cid(2) cx have "path_id (anc2 ! j) = x" by simp
      from not_own_descendant [OF ok mx ax my ay jpos j this]
      have acyc: "y \<notin> set (ancestor_ids reg x)" .
      have "entry_ok fr place reg (K2 (path_id (the_path ?v)) (origin_id (the_path ?v))) ?v"
      proof (rule entry_okI)
        show "sound fr place (the_path ?v)" using sound_Reversed [OF c q(2)] by simp
        show "has_key reg (K1 (path_id (the_path ?v)))" using ids px(2) by simp
        show "has_key reg (K1 (origin_id (the_path ?v)))" using ids py(2) by simp
        show "origin_ok fr (the_path ?v) \<or>
          origin_id (the_path ?v) \<notin> set (ancestor_ids reg (path_id (the_path ?v)))"
          using ids acyc by simp
      qed
      with r ids show ?thesis by blast
    qed
  next
    case False
    with ts obtain p where p: "tp = Some p" "sound fr place (the_path p)"
      "origin_ok fr (the_path p)" "path_id (the_path p) = x" "origin_id (the_path p) = cid"
      by blast
    show ?thesis
    proof (cases "take j anc2 = []")
      case True
      with on py have op: "op = None" and cy: "cid = y" by simp_all
      have r: "relative_result tx f tp op = Inr p"
        by (simp add: relative_result_def p(1) op)
      have ids: "path_id (the_path p) = x" "origin_id (the_path p) = y"
        using p cy by simp_all
      have "entry_ok fr place reg (K2 (path_id (the_path p)) (origin_id (the_path p))) p"
        by (rule entry_okI) (use p(2,3) ids px(2) py(2) in simp_all)
      with r ids show ?thesis by blast
    next
      case False
      with os obtain q where q: "op = Some q" "sound fr place (the_path q)"
        "path_id (the_path q) = y" "origin_id (the_path q) = cid" by blast
      from sound_Relative [OF c p(2) q(2) p(3)] p(5) q(4)
      obtain rel where rel: "Relative_init (the_path p) (the_path q) = Inr rel"
        "sound fr place rel" "origin_ok fr rel" "path_id rel = path_id (the_path p)"
        "origin_id rel = path_id (the_path q)" by auto
      let ?v = "PObj rel None"
      have r: "relative_result tx f tp op = Inr ?v"
        by (simp add: relative_result_def p(1) q(1) rel(1))
      have ids: "path_id (the_path ?v) = x" "origin_id (the_path ?v) = y"
        using rel p q by simp_all
      have "entry_ok fr place reg (K2 (path_id (the_path ?v)) (origin_id (the_path ?v))) ?v"
        by (rule entry_okI) (use rel(2,3) ids px(2) py(2) in simp_all)
      with r ids show ?thesis by blast
    qed
  qed
qed

section \<open>The inverse law of the connector\<close>

lemma connect_to_ok:
  assumes c: "coherent fr" and ok: "registry_ok fr place reg"
    and mx: "map_of reg (K1 x) = Some tx" and hy: "has_key reg (K1 y)"
  shows "\<exists>r reg'. connect_to_body (register (Suc n)) tx y (Some f) reg = (Inr r, reg') \<and>
     registry_ok fr place reg' \<and> grows reg reg' \<and> sound fr place (the_path r) \<and>
     path_id (the_path r) = x \<and> origin_id (the_path r) = y \<and> frame_id (the_path r) = f"
proof -
  from hy obtain ty where my: "map_of reg (K1 y) = Some ty" by (auto simp: has_key_def)
  from primary_ancestry [OF ok mx] obtain anc1 where ax: "ancestry tx = Some anc1" by blast
  from primary_ancestry [OF ok my] obtain anc2 where ay: "ancestry ty = Some anc2" by blast
  from common_ancestry_ok [OF ok mx ax my ay] obtain i j where
    ca: "common_ancestry tx ty = Inr (take (Suc i) anc1, take (Suc j) anc2)"
    and i: "i < length anc1" and j: "j < length anc2"
    and cid: "path_id (anc1 ! i) = path_id (anc2 ! j)"
    and bl: "butlast (take (Suc i) anc1) = take i anc1"
      "butlast (take (Suc j) anc2) = take j anc2"
    by blast
  define cid where "cid = path_id (anc2 ! j)"
  have cid1: "path_id (anc1 ! i) = cid" and cid2: "path_id (anc2 ! j) = cid"
    using cid by (simp_all add: cid_def)
  from prefix_facts [OF ok mx ax i] cid1
  have px: "\<forall>p\<in>set (take i anc1). sound fr place p \<and> origin_ok fr p" "chained (take i anc1)"
    "take i anc1 \<noteq> [] \<longrightarrow> hd (take i anc1) = the_path tx \<and>
       origin_id (last (take i anc1)) = cid"
    "has_key reg (K1 cid)" "cid \<in> set (ancestor_ids reg x)" "has_key reg (K1 x)"
    "path_id (the_path tx) = x"
    by auto
  from lookup_or_link_ok [OF c ok px(1,2,3), of n] px(4,5,6,7)
  obtain tp reg1 where
    l1: "lookup_or_link (register (Suc n)) tx (take i anc1) reg = (Inr tp, reg1)"
    and ok1: "registry_ok fr place reg1" and g1: "grows reg reg1"
    and tn: "take i anc1 = [] \<longrightarrow> tp = None"
    and ts: "take i anc1 \<noteq> [] \<longrightarrow> (\<exists>q. tp = Some q \<and> sound fr place (the_path q) \<and>
        origin_ok fr (the_path q) \<and> path_id (the_path q) = x \<and> origin_id (the_path q) = cid)"
    by auto
  have mx1: "map_of reg1 (K1 x) = Some tx" and my1: "map_of reg1 (K1 y) = Some ty"
    using grows_map_of [OF g1] mx my by simp_all
  from prefix_facts [OF ok1 my1 ay j] cid2
  have py: "\<forall>p\<in>set (take j anc2). sound fr place p \<and> origin_ok fr p" "chained (take j anc2)"
    "take j anc2 \<noteq> [] \<longrightarrow> hd (take j anc2) = the_path ty \<and>
       origin_id (last (take j anc2)) = cid"
    "has_key reg1 (K1 cid)" "cid \<in> set (ancestor_ids reg1 y)" "has_key reg1 (K1 y)"
    "path_id (the_path ty) = y"
    by auto
  from lookup_or_link_ok [OF c ok1 py(1,2,3), of n] py(4,5,6,7)
  obtain op reg2 where
    l2: "lookup_or_link (register (Suc n)) ty (take j anc2) reg1 = (Inr op, reg2)"
    and ok2: "registry_ok fr place reg2" and g2: "grows reg1 reg2"
    and on: "take j anc2 = [] \<longrightarrow> op = None"
    and os: "take j anc2 \<noteq> [] \<longrightarrow> (\<exists>q. op = Some q \<and> sound fr place (the_path q) \<and>
        origin_ok fr (the_path q) \<and> path_id (the_path q) = y \<and> origin_id (the_path q) = cid)"
    by auto
  have mx2: "map_of reg2 (K1 x) = Some tx" and my2: "map_of reg2 (K1 y) = Some ty"
    using grows_map_of [OF g2] mx1 my1 by simp_all
  from relative_result_ok [OF c ok2 mx2 ax my2 ay i j cid1 cid2 tn ts on os, of f]
  obtain res where res: "relative_result tx f tp op = Inr res" "path_id (the_path res) = x"
    "origin_id (the_path res) = y"
    "entry_ok fr place reg2 (K2 (path_id (the_path res)) (origin_id (the_path res))) res"
    by blast
  from register_entry [OF ok2 res(4), of n] obtain reg3 where
    r3: "register (Suc n) res None reg2 = (Inr res, reg3)" "registry_ok fr place reg3"
      "grows reg2 reg3" by blast
  from register_rotated_ok [OF c r3(2) grows_entry_ok [OF r3(3) res(4)], of n f]
  obtain r reg' where
    rr: "register_rotated (register (Suc n)) f (Inr res, reg3) = (Inr r, reg')"
      "registry_ok fr place reg'" "grows reg3 reg'" "sound fr place (the_path r)"
      "path_id (the_path r) = path_id (the_path res)"
      "origin_id (the_path r) = origin_id (the_path res)" "frame_id (the_path r) = f"
    by blast
  have "connect_to_body (register (Suc n)) tx y (Some f) reg = (Inr r, reg')"
    by (simp add: connect_to_body_def as_primary_def px(7) lookup_Some [OF mx]
          lookup_Some [OF my] ca bl l1 l2 res(1) r3(1) rr(1) del: register.simps)
  moreover have "grows reg reg'"
    using g1 g2 r3(3) rr(3) by (blast intro: grows_trans)
  ultimately show ?thesis using rr res(2,3) by simp
qed

lemma connect_ok:
  assumes c: "coherent fr" and ok: "registry_ok fr place reg"
    and hx: "has_key reg (K1 x)" and hy: "has_key reg (K1 y)"
  shows "\<exists>r reg'. connect (Suc n) x y (Some f) reg = (Inr r, reg') \<and>
     registry_ok fr place reg' \<and> grows reg reg' \<and> sound fr place (the_path r) \<and>
     path_id (the_path r) = x \<and> origin_id (the_path r) = y \<and> frame_id (the_path r) = f"
proof -
  from lookup_cases [of reg "K3 x y f"] show ?thesis
  proof (elim disjE exE conjE)
    fix found assume f: "map_of reg (K3 x y f) = Some found" "lookup reg (K3 x y f) = Inr found"
    from registry_ok_entry [OF ok f(1)]
    have "sound fr place (the_path found)" "path_id (the_path found) = x"
      "origin_id (the_path found) = y" "frame_id (the_path found) = f"
      by (simp_all add: entry_ok_def)
    moreover have "connect (Suc n) x y (Some f) reg = (Inr found, reg)"
      by (simp add: connect_def f(2))
    ultimately show ?thesis using ok by (simp add: grows_refl)
  next
    assume n3: "lookup reg (K3 x y f) = Inl KeyError"
    from lookup_cases [of reg "K2 x y"] show ?thesis
    proof (elim disjE exE conjE)
      fix newpath
      assume f: "map_of reg (K2 x y) = Some newpath" "lookup reg (K2 x y) = Inr newpath"
      from registry_ok_entry [OF ok f(1)] have e: "entry_ok fr place reg (K2 x y) newpath" .
      then have ids: "path_id (the_path newpath) = x" "origin_id (the_path newpath) = y"
        and s: "sound fr place (the_path newpath)"
        by (simp_all add: entry_ok_def)
      let ?rot = "PObj (Rotated_init (the_path newpath) f) None"
      from register_entry [OF ok rotated_entry [OF c entry_ok_secondary [OF e]], of n f]
      obtain reg' where r: "register (Suc n) ?rot None reg = (Inr ?rot, reg')"
        "registry_ok fr place reg'" "grows reg reg'" by blast
      have "connect (Suc n) x y (Some f) reg = (Inr ?rot, reg')"
        by (simp add: connect_def n3 f(2) r(1) del: register.simps)
      moreover have "sound fr place (the_path ?rot)" using sound_Rotated [OF c s] by simp
      ultimately show ?thesis using r(2,3) ids by (simp add: Rotated_ids)
    next
      assume n2: "lookup reg (K2 x y) = Inl KeyError"
      from hx obtain tx where mx: "map_of reg (K1 x) = Some tx" by (auto simp: has_key_def)
      from connect_to_ok [OF c ok mx hy, of n f] obtain r reg' where
        r: "connect_to_body (register (Suc n)) tx y (Some f) reg = (Inr r, reg')"
        "registry_ok fr place reg'" "grows reg reg'" "sound fr place (the_path r)"
        "path_id (the_path r) = x" "origin_id (the_path r) = y" "frame_id (the_path r) = f"
        by blast
      have "connect (Suc n) x y (Some f) reg = (Inr r, reg')"
        by (simp add: connect_def n3 n2 lookup_Some [OF mx] connect_to_def r(1)
              del: register.simps)
      with r show ?thesis by simp
    qed
  qed
qed

lemma sound_sum_zero:
  assumes c: "coherent fr" and s1: "sound fr place p1" and s2: "sound fr place p2"
    and ids: "path_id p2 = origin_id p1" "origin_id p2 = path_id p1" "frame_id p2 = frame_id p1"
  shows "\<exists>e1 e2. event_at_time fr p1 t = Inr e1 \<and> event_at_time fr p2 t = Inr e2 \<and>
     vadd (pos e1) (pos e2) = ZERO \<and> vadd (vel e1) (vel e2) = ZERO"
proof -
  let ?f = "Frame (frame_id p1) ''J2000''"
  let ?s = "separation place (path_id p1) (origin_id p1) t"
  from s1 obtain e1 where e1: "event_at_time fr p1 t = Inr e1"
    "pos e1 = rotate_vec fr ?f t (fst ?s)" "vel e1 = rotate_vel fr ?f t (fst ?s) (snd ?s)"
    by (rule soundD) blast
  from s2 obtain e2 where e2: "event_at_time fr p2 t = Inr e2"
    "pos e2 = rotate_vec fr (Frame (frame_id p2) ''J2000'') t
       (fst (separation place (path_id p2) (origin_id p2) t))"
    "vel e2 = rotate_vel fr (Frame (frame_id p2) ''J2000'') t
       (fst (separation place (path_id p2) (origin_id p2) t))
       (snd (separation place (path_id p2) (origin_id p2) t))"
    by (rule soundD) blast
  have n: "fst (separation place (origin_id p1) (path_id p1) t) = vneg (fst ?s)"
    "snd (separation place (origin_id p1) (path_id p1) t) = vneg (snd ?s)"
    by (simp_all only: separation_neg)
  have "pos e2 = vneg (pos e1)"
    by (simp only: e1 e2 ids n rotate_vneg [OF c])
  moreover have "vel e2 = vneg (vel e1)"
    by (simp only: e1 e2 ids n rotate_vel_vneg [OF c])
  ultimately show ?thesis using e1(1) e2(1) by (simp add: vadd_vneg)
qed

lemma coherent_aligned_frames: "coherent aligned_frames"
  by (simp add: coherent_def aligned_frames_def)

lemma registry_AB_entries:
  "registry_AB =
     [(K1 ''SSB'', SSB), (K2 ''SSB'' ''SSB'', SSB), (K3 ''SSB'' ''SSB'' ''J2000'', SSB),
      (K1 ''A'', PObj path_A (Some [path_A, Waypoint_init ''SSB'' ''J2000''])),
      (K2 ''A'' ''A'', PObj (Waypoint_init ''A'' ''J2000'') None),
      (K3 ''A'' ''A'' ''J2000'', PObj (Waypoint_init ''A'' ''J2000'') None),
      (K2 ''A'' ''SSB'', PObj path_A (Some [path_A, Waypoint_init ''SSB'' ''J2000''])),
      (K3 ''A'' ''SSB'' ''J2000'', PObj path_A (Some [path_A, Waypoint_init ''SSB'' ''J2000''])),
      (K1 ''B'', PObj path_B (Some [path_B, Waypoint_init ''SSB'' ''J2000''])),
      (K2 ''B'' ''B'', PObj (Waypoint_init ''B'' ''J2000'') None),
      (K3 ''B'' ''B'' ''J2000'', PObj (Waypoint_init ''B'' ''J2000'') None),
      (K2 ''B'' ''SSB'', PObj path_B (Some [path_B, Waypoint_init ''SSB'' ''J2000''])),
      (K3 ''B'' ''SSB'' ''J2000'', PObj path_B (Some [path_B, Waypoint_init ''SSB'' ''J2000'']))]"
  by code_simp

lemma sound_path_A: "sound aligned_frames place_AB path_A"
  by (simp add: sound_def rot_state_def aligned_frames_def separation_def place_AB_def
        path_A_def Event_def ZERO_def)

lemma sound_path_B: "sound aligned_frames place_AB path_B"
  by (simp add: sound_def rot_state_def aligned_frames_def separation_def place_AB_def
        path_B_def Event_def ZERO_def)

lemma origin_ok_path_AB: "origin_ok fr path_A" "origin_ok fr path_B"
  by (simp_all add: origin_ok_def path_A_def path_B_def Event_def)

lemma registry_AB_ok: "registry_ok aligned_frames place_AB registry_AB"
  unfolding registry_ok_def registry_AB_entries
  by (simp add: entry_ok_def primary_ok_def has_key_def ancestor_ids_def SSB_def
        sound_Waypoint [OF coherent_aligned_frames] origin_ok_Waypoint sound_path_A sound_path_B
        origin_ok_path_AB)
     (simp add: Waypoint_init_def path_A_def path_B_def)

text \<open>
  C6. Let the frames be coherent and the registry well formed, with \<open>a\<close> and \<open>b\<close>
  registered. Then \<open>connect(b, a, f)\<close> returns a path and, in the registry that it
  leaves, \<open>connect(a, b, f)\<close> returns a path, for every frame id \<open>f\<close>; and at every
  time the two paths return events whose positions add up to zero and whose velocities
  add up to zero.
\<close>

theorem connect_inverse_law:
  assumes "coherent fr" and "registry_ok fr place reg"
    and "has_key reg (K1 a)" and "has_key reg (K1 b)"
  shows "\<exists>p1 reg1 p2 reg2.
     connect (Suc n) b a (Some f) reg = (Inr p1, reg1) \<and>
     connect (Suc n) a b (Some f) reg1 = (Inr p2, reg2) \<and>
     (\<forall>t. \<exists>e1 e2. event_at_time fr (the_path p1) t = Inr e1 \<and>
        event_at_time fr (the_path p2) t = Inr e2 \<and>
        vadd (pos e1) (pos e2) = ZERO \<and> vadd (vel e1) (vel e2) = ZERO)"
proof -
  from connect_ok [OF assms(1,2,4,3), of n f] obtain p1 reg1 where
    1: "connect (Suc n) b a (Some f) reg = (Inr p1, reg1)" "registry_ok fr place reg1"
      "grows reg reg1" "sound fr place (the_path p1)" "path_id (the_path p1) = b"
      "origin_id (the_path p1) = a" "frame_id (the_path p1) = f"
    by blast
  have hk: "has_key reg1 (K1 a)" "has_key reg1 (K1 b)"
    using grows_has_key [OF 1(3)] assms(3,4) by simp_all
  from connect_ok [OF assms(1) 1(2) hk, of n f] obtain p2 reg2 where
    2: "connect (Suc n) a b (Some f) reg1 = (Inr p2, reg2)"
      "sound fr place (the_path p2)" "path_id (the_path p2) = a"
      "origin_id (the_path p2) = b" "frame_id (the_path p2) = f"
    by blast
  have "\<forall>t. \<exists>e1 e2. event_at_time fr (the_path p1) t = Inr e1 \<and>
        event_at_time fr (the_path p2) t = Inr e2 \<and>
        vadd (pos e1) (pos e2) = ZERO \<and> vadd (vel e1) (vel e2) = ZERO"
    using sound_sum_zero [OF assms(1) 1(4) 2(2)] 1(5-7) 2(3-5) by simp
  with 1(1) 2(1) show ?thesis by blast
qed

text \<open>
  The theorem at the registry of the two stationary paths, with every frame aligned
  with J2000 and the frame J2000 asked for.
\<close>

theorem connect_inverse_law_witness:
  "coherent aligned_frames \<and> registry_ok aligned_frames place_AB registry_AB \<and>
   has_key registry_AB (K1 ''A'') \<and> has_key registry_AB (K1 ''B'') \<and>
   (\<exists>p1 reg1 p2 reg2.
      connect (Suc 2) ''B'' ''A'' (Some ''J2000'') registry_AB = (Inr p1, reg1) \<and>
      connect (Suc 2) ''A'' ''B'' (Some ''J2000'') reg1 = (Inr p2, reg2) \<and>
      (\<forall>t. \<exists>e1 e2. event_at_time aligned_frames (the_path p1) t = Inr e1 \<and>
         event_at_time aligned_frames (the_path p2) t = Inr e2 \<and>
         vadd (pos e1) (pos e2) = ZERO \<and> vadd (vel e1) (vel e2) = ZERO))"
proof -
  have a: "has_key registry_AB (K1 ''A'')" and b: "has_key registry_AB (K1 ''B'')"
    by (simp_all add: registry_AB_entries has_key_def)
  from connect_inverse_law [OF coherent_aligned_frames registry_AB_ok a b, of 2 "''J2000''"]
  show ?thesis using coherent_aligned_frames registry_AB_ok a b by simp
qed

end
